theory Spec2Isabelle
  imports Complex_Main "HOL-Library.Log_Nat"
begin

section \<open>Leave and productivity analyzer: the calculation engine\<close>

text \<open>
  A shallow embedding of \<^verbatim>\<open>src/lib/calculations.ts\<close>.

  Conventions of the embedding:
  \<^item> the hours that \<^verbatim>\<open>parseTime\<close>, \<^verbatim>\<open>calculateWorkedHours\<close> and \<^verbatim>\<open>getExpectedHours\<close>
    return are exact rationals (\<^typ>\<open>rat\<close>), each standing for the double nearest to it;
    the productivity functions compute with IEEE 754 doubles, rounding after every
    operation (section on double-precision numbers);
  \<^item> a JavaScript string is a \<^typ>\<open>string\<close>, one \<^typ>\<open>char\<close> per code unit in the
    range U+0000 to U+00FF;
  \<^item> a thrown exception is the \<open>Inl\<close> branch of a sum type, a returned value the
    \<open>Inr\<close> branch;
  \<^item> a \<^verbatim>\<open>Date\<close> is its time value in milliseconds since the epoch, \<open>None\<close> for an
    Invalid Date; local time is UTC, without daylight saving.
\<close>

subsection \<open>Errors\<close>

text \<open>
  \<^verbatim>\<open>InvalidTimeFormatError(timeString, details)\<close>,
  \<^verbatim>\<open>InvalidDateError(message, value)\<close> and \<^verbatim>\<open>CalculationError(message, context)\<close>.
  The messages interpolate the offending number; the model keeps their fixed prefix.
\<close>

datatype error =
    InvalidTimeFormatError string string
  | InvalidDateError string
  | CalculationError string string

subsection \<open>Regular expressions with capture groups\<close>

text \<open>
  The fragment of JavaScript regular expressions that \<^verbatim>\<open>TIME_24HR_REGEX\<close> uses:
  literal characters, character ranges, sequence, alternation, the greedy optional
  \<^verbatim>\<open>?\<close> and numbered capture groups. \<open>backtrack r s caps\<close> lists, in the priority
  order of a backtracking matcher, every way in which \<open>r\<close> matches a prefix of \<open>s\<close>:
  the rest of the input and the captures after the match.
\<close>

datatype regex =
    Lit char
  | Range char char
  | Seq regex regex
  | Alt regex regex
  | Opt regex
  | Group nat regex

type_synonym captures = "nat \<rightharpoonup> string"

definition in_range :: "char \<Rightarrow> char \<Rightarrow> char \<Rightarrow> bool" where
  "in_range lo hi c \<longleftrightarrow> (of_char lo :: nat) \<le> of_char c \<and> (of_char c :: nat) \<le> of_char hi"

fun backtrack :: "regex \<Rightarrow> string \<Rightarrow> captures \<Rightarrow> (string \<times> captures) list" where
  "backtrack (Lit a) s caps = (case s of [] \<Rightarrow> [] | c # cs \<Rightarrow> if c = a then [(cs, caps)] else [])"
| "backtrack (Range lo hi) s caps =
     (case s of [] \<Rightarrow> [] | c # cs \<Rightarrow> if in_range lo hi c then [(cs, caps)] else [])"
| "backtrack (Seq r1 r2) s caps =
     concat (map (\<lambda>(s', caps'). backtrack r2 s' caps') (backtrack r1 s caps))"
| "backtrack (Alt r1 r2) s caps = backtrack r1 s caps @ backtrack r2 s caps"
| "backtrack (Opt r) s caps = backtrack r s caps @ [(s, caps)]"
| "backtrack (Group i r) s caps =
     map (\<lambda>(s', caps'). (s', caps'(i \<mapsto> take (length s - length s') s))) (backtrack r s caps)"

text \<open>
  \<^verbatim>\<open>/^r$/.exec(s)\<close>: the first way of matching that consumes the whole input, if any,
  and \<^verbatim>\<open>/^r$/.test(s)\<close>.
\<close>

definition regex_exec :: "regex \<Rightarrow> string \<Rightarrow> captures option" where
  "regex_exec r s = map_option snd (find (\<lambda>(rest, caps). rest = []) (backtrack r s Map.empty))"

definition regex_test :: "regex \<Rightarrow> string \<Rightarrow> bool" where
  "regex_test r s \<longleftrightarrow> regex_exec r s \<noteq> None"

subsection \<open>Strings and numbers of the JavaScript library\<close>

text \<open>\<^verbatim>\<open>String.prototype.trim\<close>: white space and line terminators, in the modelled range.\<close>

definition isWhiteSpace :: "char \<Rightarrow> bool" where
  "isWhiteSpace c \<longleftrightarrow> (of_char c :: nat) \<in> {9, 10, 11, 12, 13, 32, 160}"

definition trim :: "string \<Rightarrow> string" where
  "trim s = rev (dropWhile isWhiteSpace (rev (dropWhile isWhiteSpace s)))"

text \<open>
  \<^verbatim>\<open>parseInt(s, 10)\<close> on a string of decimal digits, which is all the code applies it to
  (the capture groups of \<^verbatim>\<open>TIME_24HR_REGEX\<close>).
\<close>

definition digit_value :: "char \<Rightarrow> int" where
  "digit_value c = int (of_char c) - 48"

definition parseInt :: "string \<Rightarrow> int" where
  "parseInt s = foldl (\<lambda>n c. 10 * n + digit_value c) 0 s"

text \<open>\<^verbatim>\<open>Math.round\<close>: the nearest integer, a tie going up.\<close>

definition Math_round :: "rat \<Rightarrow> rat" where
  "Math_round x = of_int \<lfloor>x + 1 / 2\<rfloor>"

text \<open>\<^verbatim>\<open>Number.isInteger\<close>.\<close>

definition Number_isInteger :: "rat \<Rightarrow> bool" where
  "Number_isInteger x \<longleftrightarrow> of_int \<lfloor>x\<rfloor> = x"

subsection \<open>Time parsing utilities\<close>

text \<open>\<^verbatim>\<open>/^([0-1]?[0-9]|2[0-3]):([0-5][0-9])$/\<close>\<close>

definition TIME_24HR_REGEX :: regex where
  "TIME_24HR_REGEX =
     Seq (Group 1 (Alt (Seq (Opt (Range CHR ''0'' CHR ''1'')) (Range CHR ''0'' CHR ''9''))
                       (Seq (Lit CHR ''2'') (Range CHR ''0'' CHR ''3''))))
         (Seq (Lit CHR '':'')
              (Group 2 (Seq (Range CHR ''0'' CHR ''5'') (Range CHR ''0'' CHR ''9''))))"

definition isValidTimeFormat :: "string \<Rightarrow> bool" where
  "isValidTimeFormat timeStr = regex_test TIME_24HR_REGEX timeStr"

text \<open>
  \<^verbatim>\<open>parseTime\<close>. The test \<^verbatim>\<open>typeof timeStr !== 'string'\<close> is decided by the type.
  A capture group that did not take part in the match is treated like a failed match.
\<close>

definition parseTime :: "string \<Rightarrow> error + rat" where
  "parseTime timeStr =
     (if length (trim timeStr) = 0
      then Inl (InvalidTimeFormatError timeStr ''Time must be a non-empty string.'')
      else
        let trimmedTime = trim timeStr in
        if \<not> isValidTimeFormat trimmedTime
        then Inl (InvalidTimeFormatError trimmedTime
                    ''Use 24-hour format: HH:MM (e.g., 09:30, 14:45).'')
        else
          case regex_exec TIME_24HR_REGEX trimmedTime of
            None \<Rightarrow> Inl (InvalidTimeFormatError trimmedTime ''Regex match failed unexpectedly.'')
          | Some match \<Rightarrow>
              (case (match 1, match 2) of
                 (Some m1, Some m2) \<Rightarrow>
                   let hours = parseInt m1; minutes = parseInt m2 in
                   if hours < 0 \<or> hours > 23
                   then Inl (InvalidTimeFormatError trimmedTime
                               ''Hours must be between 00 and 23.'')
                   else if minutes < 0 \<or> minutes > 59
                   then Inl (InvalidTimeFormatError trimmedTime
                               ''Minutes must be between 00 and 59.'')
                   else Inr (of_int hours + of_int minutes / 60)
               | _ \<Rightarrow> Inl (InvalidTimeFormatError trimmedTime
                             ''Regex match failed unexpectedly.'')))"

text \<open>\<^verbatim>\<open>calculateWorkedHours\<close>\<close>

definition calculateWorkedHours :: "string \<Rightarrow> string \<Rightarrow> error + rat" where
  "calculateWorkedHours inTime outTime =
     (case parseTime inTime of
        Inl e \<Rightarrow> Inl e
      | Inr inHours \<Rightarrow>
          (case parseTime outTime of
             Inl e \<Rightarrow> Inl e
           | Inr outHours \<Rightarrow>
               let workedHours = (if outHours \<ge> inHours then outHours - inHours
                                  else 24 - inHours + outHours) in
               if workedHours < 0 \<or> workedHours > 24
               then Inl (CalculationError ''Calculated worked hours is outside valid range [0, 24].''
                           (''inTime: '' @ inTime @ '', outTime: '' @ outTime))
               else Inr (Math_round (workedHours * 100) / 100)))"

subsection \<open>Double-precision numbers\<close>

text \<open>
  The values of the type \<^verbatim>\<open>number\<close> for the productivity functions: the finite IEEE 754
  doubles, as the rationals they are, the two infinities and NaN. The two zeros are one
  value: the sign of a zero shows only when something is divided by it, and the module
  divides by 10, 60, 100 and by an \<^verbatim>\<open>expectedHours\<close> that is not zero.

  \<open>ilog2 x\<close> is the integer part of the binary logarithm of a positive rational, and
  \<open>to_double x\<close> the double nearest to \<open>x\<close>, a tie going to the even significand: 53 bits
  of significand, the least exponent that of the subnormal numbers, and an infinity when
  the rounded value reaches \<open>2\<^sup>1\<^sup>0\<^sup>2\<^sup>4\<close>. The arithmetic operations round the exact result
  in this way.
\<close>

datatype number = Num rat | PosInf | NegInf | NaN

definition ilog2 :: "rat \<Rightarrow> int" where
  "ilog2 x =
     (let (p, q) = quotient_of x; l = bitlen p - bitlen q in
      if 2 powi l \<le> x then l else l - 1)"

definition round_to_even :: "rat \<Rightarrow> int" where
  "round_to_even q =
     (let f = \<lfloor>q\<rfloor>; r = q - of_int f in
      if r < 1 / 2 then f else if r > 1 / 2 then f + 1 else if even f then f else f + 1)"

definition to_double :: "rat \<Rightarrow> number" where
  "to_double x =
     (if x = 0 then Num 0
      else
        let e = max (ilog2 \<bar>x\<bar> - 52) (- 1074);
            y = of_int (round_to_even (x / 2 powi e)) * 2 powi e in
        if \<bar>y\<bar> \<ge> 2 powi 1024 then (if x > 0 then PosInf else NegInf) else Num y)"

text \<open>The sign of a number, 0 for a zero and for NaN, and the infinity of a sign.\<close>

definition num_sign :: "number \<Rightarrow> int" where
  "num_sign a =
     (case a of
        Num x \<Rightarrow> (if x > 0 then 1 else if x < 0 then - 1 else 0)
      | PosInf \<Rightarrow> 1
      | NegInf \<Rightarrow> - 1
      | NaN \<Rightarrow> 0)"

definition signed_inf :: "int \<Rightarrow> number" where
  "signed_inf s = (if s > 0 then PosInf else if s < 0 then NegInf else NaN)"

text \<open>\<^verbatim>\<open>a < b\<close>, \<^verbatim>\<open>a === b\<close>, \<^verbatim>\<open>a + b\<close>, \<^verbatim>\<open>a * b\<close>, \<^verbatim>\<open>a / b\<close> and \<^verbatim>\<open>Math.round(a)\<close> on numbers.\<close>

fun num_less :: "number \<Rightarrow> number \<Rightarrow> bool" where
  "num_less NaN b = False"
| "num_less a NaN = False"
| "num_less (Num x) (Num y) = (x < y)"
| "num_less PosInf b = False"
| "num_less a PosInf = True"
| "num_less a NegInf = False"
| "num_less NegInf b = True"

fun num_equals :: "number \<Rightarrow> number \<Rightarrow> bool" where
  "num_equals NaN b = False"
| "num_equals a NaN = False"
| "num_equals a b = (a = b)"

fun num_add :: "number \<Rightarrow> number \<Rightarrow> number" where
  "num_add NaN b = NaN"
| "num_add a NaN = NaN"
| "num_add (Num x) (Num y) = to_double (x + y)"
| "num_add PosInf NegInf = NaN"
| "num_add NegInf PosInf = NaN"
| "num_add PosInf b = PosInf"
| "num_add a PosInf = PosInf"
| "num_add NegInf b = NegInf"
| "num_add a NegInf = NegInf"

fun num_mul :: "number \<Rightarrow> number \<Rightarrow> number" where
  "num_mul NaN b = NaN"
| "num_mul a NaN = NaN"
| "num_mul (Num x) (Num y) = to_double (x * y)"
| "num_mul a b = signed_inf (num_sign a * num_sign b)"

fun num_div :: "number \<Rightarrow> number \<Rightarrow> number" where
  "num_div NaN b = NaN"
| "num_div a NaN = NaN"
| "num_div (Num x) (Num y) =
     (if y = 0 then signed_inf (num_sign (Num x)) else to_double (x / y))"
| "num_div (Num x) b = Num 0"
| "num_div a (Num y) = signed_inf (num_sign a * (if y < 0 then - 1 else 1))"
| "num_div a b = NaN"

fun Math_round_num :: "number \<Rightarrow> number" where
  "Math_round_num (Num x) = Num (of_int \<lfloor>x + 1 / 2\<rfloor>)"
| "Math_round_num a = a"

subsection \<open>Productivity of one pair of totals\<close>

text \<open>\<^verbatim>\<open>calculateProductivity\<close>. The \<^verbatim>\<open>typeof\<close> tests are decided by the type.\<close>

definition calculateProductivity :: "number \<Rightarrow> number \<Rightarrow> error + number" where
  "calculateProductivity actualHours expectedHours =
     (if num_less actualHours (Num 0)
      then Inl (CalculationError ''Invalid actualHours. Must be a non-negative number.''
                  ''calculateProductivity'')
      else if num_less expectedHours (Num 0)
      then Inl (CalculationError ''Invalid expectedHours. Must be a non-negative number.''
                  ''calculateProductivity'')
      else if num_equals expectedHours (Num 0) then Inr (Num 100)
      else
        let productivity = num_mul (num_div actualHours expectedHours) (Num 100) in
        Inr (num_div (Math_round_num (num_mul productivity (Num 10))) (Num 10)))"

subsection \<open>Dates of the JavaScript library\<close>

text \<open>
  The time value of a \<^verbatim>\<open>Date\<close> and the day and year arithmetic of ECMA-262
  (\<^verbatim>\<open>Day\<close>, \<^verbatim>\<open>TimeWithinDay\<close>, \<^verbatim>\<open>DaysInYear\<close>, \<^verbatim>\<open>DayFromYear\<close>, \<^verbatim>\<open>YearFromTime\<close>,
  \<^verbatim>\<open>MonthFromTime\<close>, \<^verbatim>\<open>DateFromTime\<close>, \<^verbatim>\<open>WeekDay\<close>, \<^verbatim>\<open>MakeTime\<close>, \<^verbatim>\<open>MakeDay\<close>,
  \<^verbatim>\<open>MakeDate\<close>, \<^verbatim>\<open>TimeClip\<close>). Local time is UTC, so that \<^verbatim>\<open>LocalTime\<close> and \<^verbatim>\<open>UTC\<close>
  are the identity. ECMA-262 defines \<^verbatim>\<open>YearFromTime(t)\<close> as the largest year whose first
  day is not after \<open>t\<close>; \<open>YearFromDay\<close> computes it from an estimate that is off by at
  most one (lemma \<open>YearFromDay_unique\<close> below).
\<close>

type_synonym Date = "int option"

definition msPerDay :: int where
  "msPerDay = 86400000"

definition Day :: "int \<Rightarrow> int" where
  "Day t = t div msPerDay"

definition TimeWithinDay :: "int \<Rightarrow> int" where
  "TimeWithinDay t = t mod msPerDay"

definition DaysInYear :: "int \<Rightarrow> int" where
  "DaysInYear y =
     (if y mod 4 \<noteq> 0 then 365
      else if y mod 100 \<noteq> 0 then 366
      else if y mod 400 \<noteq> 0 then 365
      else 366)"

definition DayFromYear :: "int \<Rightarrow> int" where
  "DayFromYear y =
     365 * (y - 1970) + (y - 1969) div 4 - (y - 1901) div 100 + (y - 1601) div 400"

definition YearFromDay :: "int \<Rightarrow> int" where
  "YearFromDay d =
     (let y = 1970 + (d * 400) div 146097 in
      if d < DayFromYear y then y - 1
      else if DayFromYear (y + 1) \<le> d then y + 1
      else y)"

definition YearFromTime :: "int \<Rightarrow> int" where
  "YearFromTime t = YearFromDay (Day t)"

definition InLeapYear :: "int \<Rightarrow> int" where
  "InLeapYear t = (if DaysInYear (YearFromTime t) = 366 then 1 else 0)"

definition DayWithinYear :: "int \<Rightarrow> int" where
  "DayWithinYear t = Day t - DayFromYear (YearFromTime t)"

definition MonthStart :: "int \<Rightarrow> int \<Rightarrow> int" where
  "MonthStart m leap =
     (if m = 0 then 0 else if m = 1 then 31 else if m = 2 then 59 + leap
      else if m = 3 then 90 + leap else if m = 4 then 120 + leap
      else if m = 5 then 151 + leap else if m = 6 then 181 + leap
      else if m = 7 then 212 + leap else if m = 8 then 243 + leap
      else if m = 9 then 273 + leap else if m = 10 then 304 + leap
      else if m = 11 then 334 + leap else 365 + leap)"

definition MonthFromTime :: "int \<Rightarrow> int" where
  "MonthFromTime t =
     (let d = DayWithinYear t; leap = InLeapYear t in
      if d < 31 then 0 else if d < 59 + leap then 1 else if d < 90 + leap then 2
      else if d < 120 + leap then 3 else if d < 151 + leap then 4
      else if d < 181 + leap then 5 else if d < 212 + leap then 6
      else if d < 243 + leap then 7 else if d < 273 + leap then 8
      else if d < 304 + leap then 9 else if d < 334 + leap then 10
      else 11)"

definition DateFromTime :: "int \<Rightarrow> int" where
  "DateFromTime t =
     (let d = DayWithinYear t; leap = InLeapYear t; m = MonthFromTime t in
      if m = 0 then d + 1 else if m = 1 then d - 30 else if m = 2 then d - 58 - leap
      else if m = 3 then d - 89 - leap else if m = 4 then d - 119 - leap
      else if m = 5 then d - 150 - leap else if m = 6 then d - 180 - leap
      else if m = 7 then d - 211 - leap else if m = 8 then d - 242 - leap
      else if m = 9 then d - 272 - leap else if m = 10 then d - 303 - leap
      else d - 333 - leap)"

definition WeekDay :: "int \<Rightarrow> int" where
  "WeekDay t = (Day t + 4) mod 7"

definition MakeTime :: "int \<Rightarrow> int \<Rightarrow> int \<Rightarrow> int \<Rightarrow> int" where
  "MakeTime hour minute sec ms = hour * 3600000 + minute * 60000 + sec * 1000 + ms"

definition MakeDay :: "int \<Rightarrow> int \<Rightarrow> int \<Rightarrow> int" where
  "MakeDay year month date =
     (let ym = year + month div 12; mn = month mod 12 in
      DayFromYear ym + MonthStart mn (if DaysInYear ym = 366 then 1 else 0) + date - 1)"

definition MakeDate :: "int \<Rightarrow> int \<Rightarrow> int" where
  "MakeDate day time = day * msPerDay + time"

definition TimeClip :: "int \<Rightarrow> Date" where
  "TimeClip time = (if \<bar>time\<bar> > 8640000000000000 then None else Some time)"

text \<open>
  The constructor \<^verbatim>\<open>new Date(year, monthIndex, date)\<close> and the methods \<^verbatim>\<open>setDate\<close>,
  \<^verbatim>\<open>setHours\<close>, \<^verbatim>\<open>getDay\<close> and \<^verbatim>\<open>getTime\<close> (\<open>None\<close> is NaN).
\<close>

definition new_Date :: "int \<Rightarrow> int \<Rightarrow> int \<Rightarrow> Date" where
  "new_Date year monthIndex date =
     (let yr = (if 0 \<le> year \<and> year \<le> 99 then 1900 + year else year) in
      TimeClip (MakeDate (MakeDay yr monthIndex date) (MakeTime 0 0 0 0)))"

definition Date_setDate :: "Date \<Rightarrow> int \<Rightarrow> Date" where
  "Date_setDate d date =
     (case d of
        None \<Rightarrow> None
      | Some t \<Rightarrow>
          TimeClip (MakeDate (MakeDay (YearFromTime t) (MonthFromTime t) date) (TimeWithinDay t)))"

definition Date_setHours :: "Date \<Rightarrow> int \<Rightarrow> int \<Rightarrow> int \<Rightarrow> int \<Rightarrow> Date" where
  "Date_setHours d hour minute sec ms =
     (case d of
        None \<Rightarrow> None
      | Some t \<Rightarrow> TimeClip (MakeDate (Day t) (MakeTime hour minute sec ms)))"

definition Date_getDay :: "Date \<Rightarrow> int option" where
  "Date_getDay d = map_option WeekDay d"

definition Date_getTime :: "Date \<Rightarrow> int option" where
  "Date_getTime d = d"

text \<open>\<^verbatim>\<open>a === b\<close> on two numbers: NaN is equal to nothing.\<close>

definition strict_equals :: "int option \<Rightarrow> int option \<Rightarrow> bool" where
  "strict_equals a b = (case (a, b) of (Some x, Some y) \<Rightarrow> x = y | _ \<Rightarrow> False)"

text \<open>
  The functions of date-fns that the module imports, by what they do to the
  \<^verbatim>\<open>Date\<close>: \<^verbatim>\<open>startOfDay\<close> is \<^verbatim>\<open>setHours(0, 0, 0, 0)\<close>, \<^verbatim>\<open>startOfMonth\<close> is \<^verbatim>\<open>setDate(1)\<close>
  then \<^verbatim>\<open>setHours(0, 0, 0, 0)\<close>, \<^verbatim>\<open>getDaysInMonth\<close> is the day of the month of day 0 of
  the next month, \<^verbatim>\<open>isSunday\<close> and \<^verbatim>\<open>isSaturday\<close> compare \<^verbatim>\<open>getDay()\<close> with 0 and 6.
\<close>

definition startOfDay :: "Date \<Rightarrow> Date" where
  "startOfDay date = Date_setHours date 0 0 0 0"

definition startOfMonth :: "Date \<Rightarrow> Date" where
  "startOfMonth date = Date_setHours (Date_setDate date 1) 0 0 0 0"

definition setDate :: "Date \<Rightarrow> int \<Rightarrow> Date" where
  "setDate date dayOfMonth = Date_setDate date dayOfMonth"

definition getDaysInMonth :: "Date \<Rightarrow> int option" where
  "getDaysInMonth date =
     (case date of
        None \<Rightarrow> None
      | Some t \<Rightarrow>
          Some (DateFromTime
                  (MakeDate (MakeDay (YearFromTime t) (MonthFromTime t + 1) 0) (MakeTime 0 0 0 0))))"

definition isSunday :: "Date \<Rightarrow> bool" where
  "isSunday date \<longleftrightarrow> Date_getDay date = Some 0"

definition isSaturday :: "Date \<Rightarrow> bool" where
  "isSaturday date \<longleftrightarrow> Date_getDay date = Some 6"

subsection \<open>Business rules: expected hours\<close>

record ExpectedHours =
  WEEKDAY :: rat
  SATURDAY :: rat
  SUNDAY :: rat

definition EXPECTED_HOURS :: ExpectedHours where
  "EXPECTED_HOURS = \<lparr>WEEKDAY = 17 / 2, SATURDAY = 4, SUNDAY = 0\<rparr>"

text \<open>\<^verbatim>\<open>getExpectedHours\<close>. The test \<^verbatim>\<open>date instanceof Date\<close> is decided by the type.\<close>

definition getExpectedHours :: "Date \<Rightarrow> error + rat" where
  "getExpectedHours date =
     (if Date_getTime date = None
      then Inl (InvalidDateError ''Invalid date provided to getExpectedHours'')
      else if isSunday date then Inr (SUNDAY EXPECTED_HOURS)
      else if isSaturday date then Inr (SATURDAY EXPECTED_HOURS)
      else Inr (WEEKDAY EXPECTED_HOURS))"

subsection \<open>Attendance processing\<close>

definition normalizeDate :: "Date \<Rightarrow> Date" where
  "normalizeDate date = startOfDay date"

text \<open>The \<^verbatim>\<open>for\<close> loop of \<^verbatim>\<open>generateMonthDates\<close>, with its counter \<open>day\<close> and the array \<open>dates\<close>.\<close>

function generateMonthDates_loop :: "Date \<Rightarrow> int \<Rightarrow> int \<Rightarrow> Date list \<Rightarrow> Date list" where
  "generateMonthDates_loop firstDay daysInMonth day dates =
     (if day \<le> daysInMonth
      then generateMonthDates_loop firstDay daysInMonth (day + 1)
             (dates @ [normalizeDate (setDate firstDay day)])
      else dates)"
  by pat_completeness auto
termination
  by (relation "measure (\<lambda>(firstDay, daysInMonth, day, dates). nat (daysInMonth + 1 - day))") auto

text \<open>
  \<^verbatim>\<open>generateMonthDates\<close>. The arguments of \<^verbatim>\<open>new Date\<close> are truncated to integers, which
  they are already. When \<^verbatim>\<open>getDaysInMonth\<close> is NaN the loop does not run.
\<close>

definition generateMonthDates :: "rat \<Rightarrow> rat \<Rightarrow> error + Date list" where
  "generateMonthDates year month =
     (if \<not> Number_isInteger year \<or> year < 1900 \<or> year > 2100
      then Inl (InvalidDateError ''Invalid year. Must be an integer between 1900 and 2100.'')
      else if \<not> Number_isInteger month \<or> month < 1 \<or> month > 12
      then Inl (InvalidDateError ''Invalid month. Must be an integer between 1 and 12.'')
      else
        let firstDay = startOfMonth (new_Date \<lfloor>year\<rfloor> \<lfloor>month - 1\<rfloor> 1) in
        case getDaysInMonth firstDay of
          None \<Rightarrow> Inr []
        | Some daysInMonth \<Rightarrow> Inr (generateMonthDates_loop firstDay daysInMonth 1 []))"

subsection \<open>Data model\<close>

record RawAttendanceInput =
  employeeId :: string
  date :: Date
  inTime :: string
  outTime :: string

datatype Status = PRESENT | ABSENT | WEEKEND | HOLIDAY

record ProcessedAttendanceRecord =
  employeeId :: string
  date :: Date
  inTime :: "string option"
  outTime :: "string option"
  workedHours :: rat
  status :: Status

record ProductivityMetrics =
  actualHours :: number
  expectedHours :: number
  productivityPercentage :: number

text \<open>\<^verbatim>\<open>findRecordForDate\<close>: \<^verbatim>\<open>Array.prototype.find\<close> returns the first match.\<close>

definition findRecordForDate ::
  "Date \<Rightarrow> RawAttendanceInput list \<Rightarrow> RawAttendanceInput option" where
  "findRecordForDate targetDate rawRecords =
     (let targetTime = Date_getTime targetDate in
      find (\<lambda>record.
              let normalizedRecordDate = normalizeDate (RawAttendanceInput.date record) in
              strict_equals (Date_getTime normalizedRecordDate) targetTime)
        rawRecords)"

text \<open>\<^verbatim>\<open>Array.prototype.map\<close> with a callback that may throw: the first throw ends the call.\<close>

fun Array_map :: "('a \<Rightarrow> error + 'b) \<Rightarrow> 'a list \<Rightarrow> error + 'b list" where
  "Array_map f [] = Inr []"
| "Array_map f (x # xs) =
     (case f x of
        Inl e \<Rightarrow> Inl e
      | Inr y \<Rightarrow> (case Array_map f xs of Inl e \<Rightarrow> Inl e | Inr ys \<Rightarrow> Inr (y # ys)))"

text \<open>
  \<^verbatim>\<open>normalizedRawRecords[0]?.employeeId || ''\<close>: the identifier of the first record, the
  empty string when there is none or when it is itself empty.
\<close>

definition firstEmployeeId :: "RawAttendanceInput list \<Rightarrow> string" where
  "firstEmployeeId normalizedRawRecords =
     (case normalizedRawRecords of
        [] \<Rightarrow> []
      | record # _ \<Rightarrow>
          if RawAttendanceInput.employeeId record = [] then []
          else RawAttendanceInput.employeeId record)"

text \<open>
  The callback that \<^verbatim>\<open>processMonthlyAttendance\<close> maps over the dates of the month. The
  \<^verbatim>\<open>catch\<close> block logs and throws the error again; the log is not modelled. A local
  name that is also a field of a record carries a prime.
\<close>

definition processDate ::
  "RawAttendanceInput list \<Rightarrow> Date \<Rightarrow> error + ProcessedAttendanceRecord" where
  "processDate normalizedRawRecords date' =
     (case findRecordForDate date' normalizedRawRecords of
        Some rawRecord \<Rightarrow>
          (case calculateWorkedHours (RawAttendanceInput.inTime rawRecord)
                  (RawAttendanceInput.outTime rawRecord) of
             Inl error \<Rightarrow> Inl error
           | Inr workedHours' \<Rightarrow>
               Inr \<lparr>employeeId = RawAttendanceInput.employeeId rawRecord,
                    date = date',
                    inTime = Some (RawAttendanceInput.inTime rawRecord),
                    outTime = Some (RawAttendanceInput.outTime rawRecord),
                    workedHours = workedHours',
                    status = PRESENT\<rparr>)
      | None \<Rightarrow>
          if isSunday date'
          then Inr \<lparr>employeeId = firstEmployeeId normalizedRawRecords,
                    date = date', inTime = None, outTime = None,
                    workedHours = 0, status = WEEKEND\<rparr>
          else Inr \<lparr>employeeId = firstEmployeeId normalizedRawRecords,
                    date = date', inTime = None, outTime = None,
                    workedHours = 0, status = ABSENT\<rparr>)"

text \<open>\<^verbatim>\<open>processMonthlyAttendance\<close>. The test \<^verbatim>\<open>Array.isArray\<close> is decided by the type.\<close>

definition processMonthlyAttendance ::
  "rat \<Rightarrow> rat \<Rightarrow> RawAttendanceInput list \<Rightarrow> error + ProcessedAttendanceRecord list" where
  "processMonthlyAttendance year month rawRecords =
     (let normalizedRawRecords =
            map (\<lambda>record. record\<lparr>RawAttendanceInput.date :=
                                   normalizeDate (RawAttendanceInput.date record)\<rparr>)
              rawRecords in
      case generateMonthDates year month of
        Inl e \<Rightarrow> Inl e
      | Inr allDatesInMonth \<Rightarrow> Array_map (processDate normalizedRawRecords) allDatesInMonth)"

subsection \<open>Aggregate productivity\<close>

text \<open>
  The \<^verbatim>\<open>for ... of\<close> loop of \<^verbatim>\<open>calculateAggregateProductivity\<close> with its two totals. The
  worked hours of a record, a finite number, and the expected hours of its date enter the
  sums as the doubles nearest to them.
\<close>

fun sumHours ::
  "ProcessedAttendanceRecord list \<Rightarrow> number \<Rightarrow> number \<Rightarrow> error + number \<times> number" where
  "sumHours [] totalActualHours totalExpectedHours = Inr (totalActualHours, totalExpectedHours)"
| "sumHours (record # records) totalActualHours totalExpectedHours =
     (case getExpectedHours (date record) of
        Inl e \<Rightarrow> Inl e
      | Inr expected \<Rightarrow>
          sumHours records (num_add totalActualHours (to_double (workedHours record)))
            (num_add totalExpectedHours (to_double expected)))"

definition calculateAggregateProductivity ::
  "ProcessedAttendanceRecord list \<Rightarrow> error + ProductivityMetrics" where
  "calculateAggregateProductivity records =
     (if length records = 0
      then Inl (CalculationError ''Records array must be non-empty''
                  ''calculateAggregateProductivity'')
      else
        case sumHours records (Num 0) (Num 0) of
          Inl e \<Rightarrow> Inl e
        | Inr (totalActualHours, totalExpectedHours) \<Rightarrow>
            (case calculateProductivity totalActualHours totalExpectedHours of
               Inl e \<Rightarrow> Inl e
             | Inr productivityPercentage' \<Rightarrow>
                 Inr \<lparr>actualHours =
                        num_div (Math_round_num (num_mul totalActualHours (Num 100))) (Num 100),
                      expectedHours =
                        num_div (Math_round_num (num_mul totalExpectedHours (Num 100))) (Num 100),
                      productivityPercentage = productivityPercentage'\<rparr>))"

subsection \<open>Reference notions of the specification\<close>

text \<open>
  The texts of a time of day: the hour \<open>h\<close> in 0 to 23 written with two digits, or with
  one digit when it is below ten, a colon, and the minute \<open>m\<close> in 0 to 59 written with
  two digits.
\<close>

definition one_digit :: "nat \<Rightarrow> string" where
  "one_digit n = [char_of (48 + n)]"

definition two_digits :: "nat \<Rightarrow> string" where
  "two_digits n = [char_of (48 + n div 10), char_of (48 + n mod 10)]"

definition time_text :: "string \<Rightarrow> nat \<Rightarrow> nat \<Rightarrow> bool" where
  "time_text t h m \<longleftrightarrow> h \<le> 23 \<and> m \<le> 59 \<and>
     (t = two_digits h @ '':'' @ two_digits m \<or> (h \<le> 9 \<and> t = one_digit h @ '':'' @ two_digits m))"

text \<open>
  Rounding to the nearest integer, a tie going away from zero, and to two decimals and to
  one decimal.
\<close>

definition round_half_away_from_zero :: "rat \<Rightarrow> int" where
  "round_half_away_from_zero x = (if 0 \<le> x then \<lfloor>x + 1 / 2\<rfloor> else - \<lfloor>- x + 1 / 2\<rfloor>)"

definition round_2dp :: "rat \<Rightarrow> rat" where
  "round_2dp x = of_int (round_half_away_from_zero (x * 100)) / 100"

definition round_1dp :: "rat \<Rightarrow> rat" where
  "round_1dp x = of_int (round_half_away_from_zero (x * 10)) / 10"

text \<open>The Gregorian calendar: leap years and the days of month \<open>m\<close> (1 to 12) of year \<open>y\<close>.\<close>

definition is_leap_year :: "int \<Rightarrow> bool" where
  "is_leap_year y \<longleftrightarrow> y mod 4 = 0 \<and> (y mod 100 \<noteq> 0 \<or> y mod 400 = 0)"

definition days_in_month :: "int \<Rightarrow> int \<Rightarrow> int" where
  "days_in_month y m =
     (if m = 2 then (if is_leap_year y then 29 else 28)
      else if m = 4 \<or> m = 6 \<or> m = 9 \<or> m = 11 then 30
      else 31)"

text \<open>
  The time value of local midnight of day \<open>d\<close> of month \<open>m\<close> (1 to 12) of year \<open>y\<close>, and the
  first raw entry whose normalized date is a given day.
\<close>

definition month_day :: "int \<Rightarrow> int \<Rightarrow> int \<Rightarrow> int" where
  "month_day y m d = MakeDate (MakeDay y (m - 1) d) 0"

definition first_match :: "RawAttendanceInput list \<Rightarrow> Date \<Rightarrow> RawAttendanceInput option" where
  "first_match rawRecords day =
     find (\<lambda>r. strict_equals (normalizeDate (RawAttendanceInput.date r)) day) rawRecords"

section \<open>Properties\<close>

subsection \<open>Rounding\<close>

lemma Math_round_integer: "Math_round (of_int k) = of_int k"
proof -
  have "\<lfloor>(of_int k :: rat) + 1 / 2\<rfloor> = k"
    by (rule floor_unique) simp_all
  then show ?thesis
    by (simp add: Math_round_def)
qed

lemma Math_round_close: "\<bar>Math_round x - x\<bar> \<le> 1 / 2"
proof -
  have "of_int \<lfloor>x + 1 / 2\<rfloor> \<le> x + 1 / 2" "x + 1 / 2 < of_int \<lfloor>x + 1 / 2\<rfloor> + 1"
    by linarith+
  then show ?thesis
    unfolding Math_round_def by linarith
qed

lemma Math_round_mono: "x \<le> y \<Longrightarrow> Math_round x \<le> Math_round y"
  by (simp add: Math_round_def floor_mono)

subsection \<open>The time pattern\<close>


lemma bt_minutes: "backtrack (Seq (Range CHR ''0'' CHR ''5'') (Range CHR ''0'' CHR ''9'')) s caps =
   (case s of m1 # m2 # rest \<Rightarrow>
      if in_range CHR ''0'' CHR ''5'' m1 \<and> in_range CHR ''0'' CHR ''9'' m2 then [(rest, caps)] else []
    | _ \<Rightarrow> [])"
  by (simp split: list.split)

lemma bt_hours: "backtrack (Alt (Seq (Opt (Range CHR ''0'' CHR ''1'')) (Range CHR ''0'' CHR ''9''))
                       (Seq (Lit CHR ''2'') (Range CHR ''0'' CHR ''3''))) s caps =
   (case s of [] \<Rightarrow> []
    | a # s' \<Rightarrow>
       (if in_range CHR ''0'' CHR ''1'' a then
          (case s' of [] \<Rightarrow> [] | b # rest \<Rightarrow> if in_range CHR ''0'' CHR ''9'' b then [(rest, caps)] else [])
        else [])
       @ (if in_range CHR ''0'' CHR ''9'' a then [(s', caps)] else [])
       @ (if a = CHR ''2'' then
           (case s' of [] \<Rightarrow> [] | b # rest \<Rightarrow> if in_range CHR ''0'' CHR ''3'' b then [(rest, caps)] else [])
          else []))"
  by (simp split: list.split)

lemma not_colon: "in_range CHR ''0'' CHR ''9'' c \<Longrightarrow> c \<noteq> CHR '':''"
  by (auto simp: in_range_def)

lemma bt_tail: "backtrack (Seq (Lit CHR '':'')
              (Group 2 (Seq (Range CHR ''0'' CHR ''5'') (Range CHR ''0'' CHR ''9'')))) s caps =
   (case s of c # m1 # m2 # rest \<Rightarrow>
      if c = CHR '':'' \<and> in_range CHR ''0'' CHR ''5'' m1 \<and> in_range CHR ''0'' CHR ''9'' m2
      then [(rest, caps(2 \<mapsto> [m1, m2]))] else []
    | _ \<Rightarrow> [])"
  unfolding backtrack.simps(3)[of "Lit _"] backtrack.simps(6) bt_minutes
  by (auto split: list.split)

lemma exec_closed:
  "regex_exec TIME_24HR_REGEX s =
    (case s of
       [a, c, m1, m2] \<Rightarrow>
         if in_range CHR ''0'' CHR ''9'' a \<and> c = CHR '':'' \<and> in_range CHR ''0'' CHR ''5'' m1 \<and> in_range CHR ''0'' CHR ''9'' m2
         then Some [1 \<mapsto> [a], 2 \<mapsto> [m1, m2]] else None
     | [a, b, c, m1, m2] \<Rightarrow>
         if ((in_range CHR ''0'' CHR ''1'' a \<and> in_range CHR ''0'' CHR ''9'' b)
               \<or> (a = CHR ''2'' \<and> in_range CHR ''0'' CHR ''3'' b))
            \<and> c = CHR '':'' \<and> in_range CHR ''0'' CHR ''5'' m1 \<and> in_range CHR ''0'' CHR ''9'' m2
         then Some [1 \<mapsto> [a, b], 2 \<mapsto> [m1, m2]] else None
     | _ \<Rightarrow> None)"
  unfolding regex_exec_def TIME_24HR_REGEX_def backtrack.simps(3)[of "Group _ _"] backtrack.simps(6) bt_hours bt_tail
  by (auto split: list.split dest: not_colon)

lemma digitE:
  assumes "in_range CHR ''0'' hi c" and "of_char hi = 48 + k"
  obtains n :: nat where "n \<le> k" and "c = char_of (48 + n)"
proof -
  from assms have b: "48 \<le> (of_char c :: nat)" "(of_char c :: nat) \<le> 48 + k"
    by (simp_all add: in_range_def)
  then have "c = char_of (48 + (of_char c - 48 :: nat))" by simp
  moreover from b have "(of_char c - 48 :: nat) \<le> k" by simp
  ultimately show thesis by (rule that[rotated])
qed

lemma digit_value_char_of: "(n::nat) \<le> 9 \<Longrightarrow> digit_value (char_of (48 + n)) = int n"
  by (simp add: digit_value_def)

lemma parseInt1: "(n::nat) \<le> 9 \<Longrightarrow> parseInt [char_of (48 + n)] = int n"
  by (simp add: parseInt_def digit_value_char_of)

lemma parseInt2: "(a::nat) \<le> 9 \<Longrightarrow> b \<le> 9 \<Longrightarrow> parseInt [char_of (48 + a), char_of (48 + b)] = int (10 * a + b)"
  by (simp add: parseInt_def digit_value_char_of)

lemma two_digits_eq: "b \<le> 9 \<Longrightarrow> two_digits (10 * a + b) = [char_of (48 + a), char_of (48 + b)]"
  by (simp add: two_digits_def)

lemma parseInt_two_digits: "n \<le> 99 \<Longrightarrow> parseInt (two_digits n) = int n"
  unfolding two_digits_def by (subst parseInt2) auto

lemma minutes_shape:
  assumes "in_range CHR ''0'' CHR ''5'' m1" "in_range CHR ''0'' CHR ''9'' m2"
  obtains m where "m \<le> 59" "[m1, m2] = two_digits m"
proof -
  from assms(1) obtain a :: nat where a: "a \<le> 5" "m1 = char_of (48 + a)" by (rule digitE[where k = 5]) simp
  from assms(2) obtain b :: nat where b: "b \<le> 9" "m2 = char_of (48 + b)" by (rule digitE[where k = 9]) simp
  show thesis
    by (rule that[of "10 * a + b"]) (use a b in \<open>simp_all add: two_digits_eq\<close>)
qed

lemma hours_shape1:
  assumes "in_range CHR ''0'' CHR ''9'' a"
  obtains h where "h \<le> 9" "[a] = one_digit h"
proof -
  from assms obtain n :: nat where "n \<le> 9" "a = char_of (48 + n)" by (rule digitE[where k = 9]) simp
  then show thesis by (intro that[of n]) (simp_all add: one_digit_def)
qed

lemma hours_shape2:
  assumes "(in_range CHR ''0'' CHR ''1'' a \<and> in_range CHR ''0'' CHR ''9'' b)
               \<or> (a = CHR ''2'' \<and> in_range CHR ''0'' CHR ''3'' b)"
  obtains h where "h \<le> 23" "[a, b] = two_digits h"
proof -
  from assms consider (lo) "in_range CHR ''0'' CHR ''1'' a" "in_range CHR ''0'' CHR ''9'' b"
    | (hi) "a = CHR ''2''" "in_range CHR ''0'' CHR ''3'' b" by blast
  then show thesis
  proof cases
    case lo
    from lo(1) obtain x :: nat where x: "x \<le> 1" "a = char_of (48 + x)" by (rule digitE[where k = 1]) simp
    from lo(2) obtain y :: nat where y: "y \<le> 9" "b = char_of (48 + y)" by (rule digitE[where k = 9]) simp
    show thesis
      by (rule that[of "10 * x + y"]) (use x y in \<open>simp_all add: two_digits_eq\<close>)
  next
    case hi
    from hi(2) obtain y :: nat where y: "y \<le> 3" "b = char_of (48 + y)" by (rule digitE[where k = 3]) simp
    have a: "a = char_of (48 + (2::nat))" using hi(1) by (intro of_char_eqI[where ?'a = nat]) simp
    have td: "two_digits (20 + y) = [char_of (50::nat), char_of (48 + y)]"
      using two_digits_eq[of y 2] y by simp
    show thesis
      by (rule that[of "20 + y"]) (use a y td in simp_all)
  qed
qed

lemma exec_sound:
  assumes "regex_exec TIME_24HR_REGEX s = Some caps"
  shows "\<exists>h m. time_text s h m \<and> (\<exists>hs ms. caps 1 = Some hs \<and> caps 2 = Some ms \<and>
           parseInt hs = int h \<and> parseInt ms = int m)"
proof -
  from assms consider
    (four) a c m1 m2 where "s = [a, c, m1, m2]" "in_range CHR ''0'' CHR ''9'' a" "c = CHR '':''"
      "in_range CHR ''0'' CHR ''5'' m1" "in_range CHR ''0'' CHR ''9'' m2" "caps = [1 \<mapsto> [a], 2 \<mapsto> [m1, m2]]"
  | (five) a b c m1 m2 where "s = [a, b, c, m1, m2]"
      "(in_range CHR ''0'' CHR ''1'' a \<and> in_range CHR ''0'' CHR ''9'' b)
               \<or> (a = CHR ''2'' \<and> in_range CHR ''0'' CHR ''3'' b)" "c = CHR '':''"
      "in_range CHR ''0'' CHR ''5'' m1" "in_range CHR ''0'' CHR ''9'' m2" "caps = [1 \<mapsto> [a, b], 2 \<mapsto> [m1, m2]]"
    unfolding exec_closed by (auto split: list.splits if_splits)
  then show ?thesis
  proof cases
    case four
    from four(2) obtain h where h: "h \<le> 9" "[a] = one_digit h" by (rule hours_shape1)
    from four(4,5) obtain m where m: "m \<le> 59" "[m1, m2] = two_digits m" by (rule minutes_shape)
    have "time_text s h m" using four(1,3) h m by (simp add: time_text_def)
    moreover have "parseInt [a] = int h" using h by (simp add: one_digit_def parseInt1)
    moreover have "parseInt [m1, m2] = int m" using m by (simp add: parseInt_two_digits)
    ultimately show ?thesis using four(6) by auto
  next
    case five
    from five(2) obtain h where h: "h \<le> 23" "[a, b] = two_digits h" by (rule hours_shape2)
    from five(4,5) obtain m where m: "m \<le> 59" "[m1, m2] = two_digits m" by (rule minutes_shape)
    have "time_text s h m" using five(1,3) h m by (simp add: time_text_def)
    moreover have "parseInt [a, b] = int h" using h by (simp add: parseInt_two_digits)
    moreover have "parseInt [m1, m2] = int m" using m by (simp add: parseInt_two_digits)
    ultimately show ?thesis using five(6) by auto
  qed
qed



lemma digit_in_range:
  "(n::nat) \<le> 9 \<Longrightarrow> in_range CHR ''0'' CHR ''9'' (char_of (48 + n))"
  by (simp add: in_range_def)

lemma minutes_in_range:
  "(m::nat) \<le> 59 \<Longrightarrow> in_range CHR ''0'' CHR ''5'' (char_of (48 + m div 10))"
  by (simp add: in_range_def)

lemma hours_in_range:
  assumes "(h::nat) \<le> 23"
  shows "(in_range CHR ''0'' CHR ''1'' (char_of (48 + h div 10)) \<and>
            in_range CHR ''0'' CHR ''9'' (char_of (48 + h mod 10)))
         \<or> (char_of (48 + h div 10) = CHR ''2'' \<and>
            in_range CHR ''0'' CHR ''3'' (char_of (48 + h mod 10)))"
proof (cases "h < 20")
  case True
  then have "h div 10 \<le> 1" "h mod 10 \<le> 9" by simp_all
  then show ?thesis by (simp add: in_range_def)
next
  case False
  with assms have d: "h div 10 = 2" and m: "h mod 10 \<le> 3" by presburger+
  have "char_of (48 + h div 10) = CHR ''2''"
    unfolding d by (intro of_char_eqI[where ?'a = nat]) simp
  with m show ?thesis by (simp add: in_range_def)
qed

lemma exec_complete:
  assumes "time_text s h m"
  shows "\<exists>caps hs ms. regex_exec TIME_24HR_REGEX s = Some caps \<and> caps 1 = Some hs \<and>
           caps 2 = Some ms \<and> parseInt hs = int h \<and> parseInt ms = int m"
proof -
  from assms have h: "h \<le> 23" and m: "m \<le> 59" by (simp_all add: time_text_def)
  have pm: "parseInt (two_digits m) = int m" using m by (simp add: parseInt_two_digits)
  have ph: "parseInt (two_digits h) = int h" using h by (simp add: parseInt_two_digits)
  note mr = minutes_in_range[OF m] digit_in_range[of "m mod 10"]
  from assms consider (two) "s = two_digits h @ '':'' @ two_digits m"
    | (one) "h \<le> 9" "s = one_digit h @ '':'' @ two_digits m"
    by (auto simp: time_text_def)
  then show ?thesis
  proof cases
    case two
    have "regex_exec TIME_24HR_REGEX s = Some [1 \<mapsto> two_digits h, 2 \<mapsto> two_digits m]"
      unfolding exec_closed two using hours_in_range[OF h] mr
      by (simp add: two_digits_def)
    with ph pm show ?thesis by simp
  next
    case one
    have "regex_exec TIME_24HR_REGEX s = Some [1 \<mapsto> one_digit h, 2 \<mapsto> two_digits m]"
      unfolding exec_closed one(2) using digit_in_range[OF one(1)] mr
      by (simp add: two_digits_def one_digit_def)
    moreover have "parseInt (one_digit h) = int h"
      using one(1) by (simp add: one_digit_def parseInt1)
    ultimately show ?thesis using pm by simp
  qed
qed

lemma time_text_nonempty: "time_text t h m \<Longrightarrow> t \<noteq> []"
  by (auto simp: time_text_def two_digits_def)

lemma parseTime_ok:
  assumes "time_text (trim s) h m"
  shows "parseTime s = Inr (of_nat h + of_nat m / 60)"
proof -
  from exec_complete[OF assms] obtain caps hs ms where
    c: "regex_exec TIME_24HR_REGEX (trim s) = Some caps" "caps 1 = Some hs" "caps 2 = Some ms"
       "parseInt hs = int h" "parseInt ms = int m"
    by blast
  from assms have "h \<le> 23" "m \<le> 59" by (simp_all add: time_text_def)
  then show ?thesis
    using c time_text_nonempty[OF assms]
    by (simp add: parseTime_def isValidTimeFormat_def regex_test_def)
qed

lemma parseTime_no_match:
  assumes "regex_exec TIME_24HR_REGEX (trim s) = None"
  shows "parseTime s =
           (if trim s = [] then Inl (InvalidTimeFormatError s ''Time must be a non-empty string.'')
            else Inl (InvalidTimeFormatError (trim s)
                        ''Use 24-hour format: HH:MM (e.g., 09:30, 14:45).''))"
  using assms by (simp add: parseTime_def isValidTimeFormat_def regex_test_def)

lemma parseTime_match:
  assumes "regex_exec TIME_24HR_REGEX (trim s) = Some caps"
  shows "\<exists>h m. time_text (trim s) h m \<and> parseTime s = Inr (of_nat h + of_nat m / 60)"
  using exec_sound[OF assms] parseTime_ok by blast

lemma parseTime_Inr_iff:
  "parseTime s = Inr v \<longleftrightarrow> (\<exists>h m. time_text (trim s) h m \<and> v = of_nat h + of_nat m / 60)"
proof (cases "regex_exec TIME_24HR_REGEX (trim s)")
  case None
  then have "\<nexists>h m. time_text (trim s) h m" using exec_complete by fastforce
  with parseTime_no_match[OF None] show ?thesis by (simp split: if_splits)
next
  case (Some caps)
  from parseTime_match[OF Some] obtain h m where
    hm: "time_text (trim s) h m" "parseTime s = Inr (of_nat h + of_nat m / 60)" by blast
  show ?thesis
  proof
    assume "parseTime s = Inr v"
    with hm show "\<exists>h m. time_text (trim s) h m \<and> v = of_nat h + of_nat m / 60" by auto
  next
    assume "\<exists>h m. time_text (trim s) h m \<and> v = of_nat h + of_nat m / 60"
    then show "parseTime s = Inr v" using parseTime_ok by blast
  qed
qed

lemma parseTime_range:
  assumes "parseTime s = Inr v"
  shows "0 \<le> v \<and> v < 24"
proof -
  from assms obtain h m where t: "time_text (trim s) h m" and v: "v = of_nat h + of_nat m / 60"
    unfolding parseTime_Inr_iff by blast
  from t have "h \<le> 23" "m \<le> 59" by (simp_all add: time_text_def)
  then have "(of_nat h :: rat) \<le> 23" "(of_nat m :: rat) \<le> 59"
    by (metis of_nat_le_iff of_nat_numeral)+
  then show ?thesis unfolding v by simp
qed

subsection \<open>Worked hours\<close>

lemma Math_round_half_away: "0 \<le> x \<Longrightarrow> Math_round x = of_int (round_half_away_from_zero x)"
  by (simp add: Math_round_def round_half_away_from_zero_def)

lemma calculateWorkedHours_parsed:
  assumes "parseTime a = Inr i" "parseTime b = Inr out"
  shows "calculateWorkedHours a b =
           Inr (Math_round ((if out \<ge> i then out - i else 24 - i + out) * 100) / 100)"
proof -
  from assms have "0 \<le> i \<and> i < 24" "0 \<le> out \<and> out < 24"
    by (simp_all add: parseTime_range)
  then have "0 \<le> (if out \<ge> i then out - i else 24 - i + out)"
    "(if out \<ge> i then out - i else 24 - i + out) \<le> 24"
    by auto
  then show ?thesis
    using assms by (simp add: calculateWorkedHours_def Let_def not_less not_le)
qed

lemma calculateWorkedHours_error:
  assumes "calculateWorkedHours a b = Inl e"
  shows "(parseTime a = Inl e \<or> (\<exists>i. parseTime a = Inr i) \<and> parseTime b = Inl e)
         \<and> (\<exists>t d. e = InvalidTimeFormatError t d)"
proof (cases "parseTime a")
  case (Inl a)
  then have "\<exists>t d. a = InvalidTimeFormatError t d"
    by (auto simp: parseTime_def Let_def split: if_splits option.splits prod.splits)
  with Inl assms show ?thesis by (simp add: calculateWorkedHours_def)
next
  case i: (Inr i)
  show ?thesis
  proof (cases "parseTime b")
    case (Inl a)
    then have "\<exists>t d. a = InvalidTimeFormatError t d"
      by (auto simp: parseTime_def Let_def split: if_splits option.splits prod.splits)
    with Inl i assms show ?thesis by (simp add: calculateWorkedHours_def)
  next
    case (Inr out)
    with i assms show ?thesis by (simp add: calculateWorkedHours_parsed)
  qed
qed

lemma Math_round_numeral: "Math_round (numeral n) = numeral n"
  using Math_round_integer[of "numeral n"] by simp

lemma Math_round_zero: "Math_round 0 = 0"
  using Math_round_integer[of 0] by simp

lemma Math_round_eqI:
  "of_int k \<le> x + 1 / 2 \<Longrightarrow> x + 1 / 2 < of_int k + 1 \<Longrightarrow> Math_round x = of_int k"
  unfolding Math_round_def by (simp add: floor_unique)

lemma parse_0900: "parseTime ''09:00'' = Inr 9" by code_simp
lemma parse_1730: "parseTime ''17:30'' = Inr (35 / 2)" by code_simp
lemma parse_2300: "parseTime ''23:00'' = Inr 23" by code_simp
lemma parse_0100: "parseTime ''01:00'' = Inr 1" by code_simp

lemma cwh1: "calculateWorkedHours ''09:00'' ''17:30'' = Inr (17 / 2)"
  by (simp add: calculateWorkedHours_def parse_0900 parse_1730 Math_round_numeral)
lemma cwh2: "calculateWorkedHours ''23:00'' ''01:00'' = Inr 2"
  by (simp add: calculateWorkedHours_def parse_2300 parse_0100 Math_round_numeral)
lemma cwh3: "calculateWorkedHours ''09:00'' ''09:00'' = Inr 0"
  by (simp add: calculateWorkedHours_def parse_0900 Math_round_zero)

text \<open>
  C5. When both times parse, to \<open>i\<close> and \<open>out\<close>, the worked hours are \<open>out - i\<close> if
  \<open>out \<ge> i\<close> and \<open>24 - i + out\<close> otherwise, rounded to two decimals with a tie going
  away from zero; 09:00 to 17:30 is 8.5, 23:00 to 01:00 is 2, 09:00 to 09:00 is 0.
\<close>

theorem calculateWorkedHours_value:
  "(\<forall>a b i out.
      parseTime a = Inr i \<and> parseTime b = Inr out \<longrightarrow>
      calculateWorkedHours a b =
        Inr (round_2dp (if out \<ge> i then out - i else 24 - i + out)))
   \<and> calculateWorkedHours ''09:00'' ''17:30'' = Inr (17 / 2)
   \<and> calculateWorkedHours ''23:00'' ''01:00'' = Inr 2
   \<and> calculateWorkedHours ''09:00'' ''09:00'' = Inr 0"
proof -
  have "calculateWorkedHours a b =
        Inr (round_2dp (if out \<ge> i then out - i else 24 - i + out))"
    if p: "parseTime a = Inr i" "parseTime b = Inr out" for a b i out
  proof -
    from p have "0 \<le> i \<and> i < 24" "0 \<le> out \<and> out < 24"
      by (simp_all add: parseTime_range)
    then have "0 \<le> (if out \<ge> i then out - i else 24 - i + out) * 100"
      by auto
    then show ?thesis
      unfolding calculateWorkedHours_parsed[OF p] round_2dp_def
      by (simp only: Math_round_half_away)
  qed
  then show ?thesis
    using cwh1 cwh2 cwh3 by blast
qed

theorem calculateWorkedHours_value_witness:
  "parseTime ''23:00'' = Inr 23 \<and> parseTime ''01:00'' = Inr 1
   \<and> calculateWorkedHours ''23:00'' ''01:00'' = Inr (round_2dp (24 - 23 + 1))"
proof -
  have "calculateWorkedHours ''23:00'' ''01:00'' =
          Inr (round_2dp (if (1::rat) \<ge> 23 then 1 - 23 else 24 - 23 + 1))"
    using calculateWorkedHours_value parse_2300 parse_0100 by blast
  then show ?thesis
    using parse_2300 parse_0100 by simp
qed

text \<open>
  C6. When both times parse, the worked hours lie between 0 and 24, before and after
  rounding, so that the call returns; and no input at all makes
  \<^verbatim>\<open>calculateWorkedHours\<close> fail with a \<^verbatim>\<open>CalculationError\<close>.
\<close>

theorem calculateWorkedHours_in_range:
  "(parseTime a = Inr i \<and> parseTime b = Inr out \<longrightarrow>
      0 \<le> (if out \<ge> i then out - i else 24 - i + out)
      \<and> (if out \<ge> i then out - i else 24 - i + out) \<le> 24
      \<and> (\<exists>w. calculateWorkedHours a b = Inr w \<and> 0 \<le> w \<and> w \<le> 24))
   \<and> calculateWorkedHours a' b' \<noteq> Inl (CalculationError msg ctx)"
proof -
  have "0 \<le> (if out \<ge> i then out - i else 24 - i + out)
      \<and> (if out \<ge> i then out - i else 24 - i + out) \<le> 24
      \<and> (\<exists>w. calculateWorkedHours a b = Inr w \<and> 0 \<le> w \<and> w \<le> 24)"
    if p: "parseTime a = Inr i" "parseTime b = Inr out"
  proof -
    define w where "w = (if out \<ge> i then out - i else 24 - i + out)"
    from p have "0 \<le> i \<and> i < 24" "0 \<le> out \<and> out < 24"
      by (simp_all add: parseTime_range)
    then have w: "0 \<le> w" "w \<le> 24" by (auto simp: w_def)
    then have "Math_round (of_int 0) \<le> Math_round (w * 100)"
      "Math_round (w * 100) \<le> Math_round (of_int 2400)"
      by (auto intro!: Math_round_mono)
    then have "0 \<le> Math_round (w * 100) / 100" "Math_round (w * 100) / 100 \<le> 24"
      unfolding Math_round_integer by simp_all
    then have "\<exists>v. calculateWorkedHours a b = Inr v \<and> 0 \<le> v \<and> v \<le> 24"
      unfolding calculateWorkedHours_parsed[OF p] w_def[symmetric] by blast
    with w show ?thesis
      unfolding w_def by blast
  qed
  moreover have "calculateWorkedHours a' b' \<noteq> Inl (CalculationError msg ctx)"
    using calculateWorkedHours_error[of a' b' "CalculationError msg ctx"] by auto
  ultimately show ?thesis by blast
qed

theorem calculateWorkedHours_in_range_witness:
  "parseTime ''23:00'' = Inr 23 \<and> parseTime ''01:00'' = Inr 1
   \<and> (\<exists>w. calculateWorkedHours ''23:00'' ''01:00'' = Inr w \<and> 0 \<le> w \<and> w \<le> 24)"
  using calculateWorkedHours_in_range[of "''23:00''" 23 "''01:00''" 1] parse_2300 parse_0100
  by simp

subsection \<open>Parsing a time\<close>

lemma regex_test_iff: "regex_test TIME_24HR_REGEX t \<longleftrightarrow> (\<exists>h m. time_text t h m)"
proof
  assume "regex_test TIME_24HR_REGEX t"
  then obtain caps where "regex_exec TIME_24HR_REGEX t = Some caps"
    by (auto simp: regex_test_def)
  from exec_sound[OF this] show "\<exists>h m. time_text t h m" by blast
next
  assume "\<exists>h m. time_text t h m"
  then show "regex_test TIME_24HR_REGEX t"
    using exec_complete by (fastforce simp: regex_test_def)
qed

lemma parseTime_Inl:
  assumes "\<not> regex_test TIME_24HR_REGEX (trim s)"
  shows "\<exists>t d. parseTime s = Inl (InvalidTimeFormatError t d)"
proof -
  from assms have "regex_exec TIME_24HR_REGEX (trim s) = None"
    by (simp add: regex_test_def)
  from parseTime_no_match[OF this] show ?thesis by (simp split: if_splits)
qed

text \<open>
  C7, as the claim states it, fails: a time with a leading blank does not match the
  pattern, and \<^verbatim>\<open>parseTime\<close> returns its value.
\<close>

theorem parseTime_untrimmed_counterexample:
  "\<not> regex_test TIME_24HR_REGEX '' 09:30'' \<and> parseTime '' 09:30'' = Inr (19 / 2)"
  by code_simp

text \<open>
  C7, amended. \<^verbatim>\<open>parseTime\<close> succeeds exactly on the strings that match the pattern
  after \<^verbatim>\<open>trim\<close> has removed the white space around them, that is, on the texts of an
  hour 0 to 23 in one or two digits and a minute 0 to 59 in two digits, and returns hour
  + minute / 60; on every other string it fails with \<^verbatim>\<open>InvalidTimeFormatError\<close>.
\<close>

theorem parseTime_trimmed:
  "(parseTime s = Inr v \<longleftrightarrow> (\<exists>h m. time_text (trim s) h m \<and> v = of_nat h + of_nat m / 60))
   \<and> ((\<exists>v. parseTime s = Inr v) \<longleftrightarrow> regex_test TIME_24HR_REGEX (trim s))
   \<and> (regex_test TIME_24HR_REGEX t \<longleftrightarrow> (\<exists>h m. time_text t h m))
   \<and> (\<not> regex_test TIME_24HR_REGEX (trim s) \<longrightarrow>
        (\<exists>t d. parseTime s = Inl (InvalidTimeFormatError t d)))"
proof -
  have "(\<exists>v. parseTime s = Inr v) \<longleftrightarrow> regex_test TIME_24HR_REGEX (trim s)"
    unfolding parseTime_Inr_iff regex_test_iff by blast
  then show ?thesis
    using parseTime_Inr_iff[of s v] regex_test_iff[of t] parseTime_Inl[of s] by blast
qed

theorem parseTime_trimmed_witness:
  "\<not> regex_test TIME_24HR_REGEX (trim ''9:5'')
   \<and> (\<exists>t d. parseTime ''9:5'' = Inl (InvalidTimeFormatError t d))"
proof -
  have "\<not> regex_test TIME_24HR_REGEX (trim ''9:5'')" by code_simp
  then show ?thesis
    using parseTime_trimmed[of "''9:5''"] by blast
qed

lemma parseTime_rejects:
  "parseTime ''25:00'' = Inl (InvalidTimeFormatError ''25:00''
      ''Use 24-hour format: HH:MM (e.g., 09:30, 14:45).'')"
  "parseTime ''9:5'' = Inl (InvalidTimeFormatError ''9:5''
      ''Use 24-hour format: HH:MM (e.g., 09:30, 14:45).'')"
  "parseTime ''09-30'' = Inl (InvalidTimeFormatError ''09-30''
      ''Use 24-hour format: HH:MM (e.g., 09:30, 14:45).'')"
  "parseTime ''09:60'' = Inl (InvalidTimeFormatError ''09:60''
      ''Use 24-hour format: HH:MM (e.g., 09:30, 14:45).'')"
  "parseTime ''abc'' = Inl (InvalidTimeFormatError ''abc''
      ''Use 24-hour format: HH:MM (e.g., 09:30, 14:45).'')"
  "parseTime ''x09:30'' = Inl (InvalidTimeFormatError ''x09:30''
      ''Use 24-hour format: HH:MM (e.g., 09:30, 14:45).'')"
  "parseTime '''' = Inl (InvalidTimeFormatError '''' ''Time must be a non-empty string.'')"
  "parseTime ''  '' = Inl (InvalidTimeFormatError ''  '' ''Time must be a non-empty string.'')"
  by code_simp+

subsection \<open>The calendar\<close>

lemma div_succ:
  assumes "0 < k"
  shows "((x::int) + 1) div k = x div k + (if (x + 1) mod k = 0 then 1 else 0)"
proof -
  define q where "q = x div k"
  define r where "r = x mod k"
  have x: "x = k * q + r" by (simp add: q_def r_def)
  have r: "0 \<le> r" "r < k" using assms by (simp_all add: r_def)
  show ?thesis
  proof (cases "r + 1 = k")
    case True
    then have e: "x + 1 = k * (q + 1) + 0" using x by (simp add: algebra_simps)
    have "(x + 1) div k = q + 1" using int_div_pos_eq[OF e] assms by simp
    moreover have "(x + 1) mod k = 0" using int_mod_pos_eq[OF e] assms by simp
    ultimately show ?thesis by (simp add: q_def)
  next
    case False
    then have lt: "r + 1 < k" using r by simp
    have e: "x + 1 = k * q + (r + 1)" using x by simp
    have "(x + 1) div k = q" using int_div_pos_eq[OF e] lt r by simp
    moreover have "(x + 1) mod k = r + 1" using int_mod_pos_eq[OF e] lt r by simp
    ultimately show ?thesis using r by (simp add: q_def)
  qed
qed

lemma mod_shift: "((y::int) - k * c) mod k = y mod k"
proof -
  have "y - k * c = y + k * (- c)" by simp
  then show ?thesis by (simp only: mod_mult_self2)
qed

lemma leap_mods:
  "((y::int) - 1968) mod 4 = y mod 4"
  "(y - 1900) mod 100 = y mod 100"
  "(y - 1600) mod 400 = y mod 400"
  using mod_shift[of y 4 492] mod_shift[of y 100 19] mod_shift[of y 400 4] by simp_all

lemma mod_dvd_zero:
  assumes "(y::int) mod b = 0" "a dvd b"
  shows "y mod a = 0"
proof -
  from assms(1) have "b dvd y" by (simp add: mod_eq_0_iff_dvd)
  with assms(2) have "a dvd y" by (rule dvd_trans)
  then show ?thesis by (simp add: mod_eq_0_iff_dvd)
qed

lemma DayFromYear_Suc: "DayFromYear (y + 1) = DayFromYear y + DaysInYear y"
proof -
  have a: "(y + 1 - 1969) div 4 = (y - 1969) div 4 + (if y mod 4 = 0 then 1 else 0)"
    using div_succ[of 4 "y - 1969"] leap_mods(1)[of y] by (simp add: algebra_simps)
  have b: "(y + 1 - 1901) div 100 = (y - 1901) div 100 + (if y mod 100 = 0 then 1 else 0)"
    using div_succ[of 100 "y - 1901"] leap_mods(2)[of y] by (simp add: algebra_simps)
  have c: "(y + 1 - 1601) div 400 = (y - 1601) div 400 + (if y mod 400 = 0 then 1 else 0)"
    using div_succ[of 400 "y - 1601"] leap_mods(3)[of y] by (simp add: algebra_simps)
  have m1: "y mod 100 = 0 \<Longrightarrow> y mod 4 = 0" by (rule mod_dvd_zero[of y 100 4]) simp_all
  have m2: "y mod 400 = 0 \<Longrightarrow> y mod 100 = 0" by (rule mod_dvd_zero[of y 400 100]) simp_all
  show ?thesis
    unfolding DayFromYear_def DaysInYear_def a b c
    using m1 m2 by auto
qed

lemma DaysInYear_cases: "DaysInYear y = 365 \<or> DaysInYear y = 366"
  by (simp add: DaysInYear_def)

lemma DayFromYear_add: "0 \<le> k \<Longrightarrow> DayFromYear y + 365 * k \<le> DayFromYear (y + k)"
proof (induction k rule: int_ge_induct)
  case base
  show ?case by simp
next
  case (step i)
  have "DayFromYear (y + (i + 1)) = DayFromYear (y + i) + DaysInYear (y + i)"
    using DayFromYear_Suc[of "y + i"] by (simp add: add.assoc)
  with step DaysInYear_cases[of "y + i"] show ?case by auto
qed

lemma DayFromYear_mono: "y \<le> y' \<Longrightarrow> DayFromYear y \<le> DayFromYear y'"
  using DayFromYear_add[of "y' - y" y] by simp

lemma div_bounds:
  assumes "0 < k"
  shows "k * ((x::int) div k) \<le> x" "x < k * (x div k) + k"
proof -
  have "x = k * (x div k) + x mod k" by simp
  moreover have "0 \<le> x mod k" "x mod k < k" using assms by simp_all
  ultimately show "k * (x div k) \<le> x" "x < k * (x div k) + k" by linarith+
qed

lemma DayFromYear_bounds:
  "146097 * (y - 1970) - 506 \<le> 400 * DayFromYear y"
  "400 * DayFromYear y \<le> 146097 * (y - 1970) + 589"
proof -
  define a where "a = (y - 1969) div 4"
  define b where "b = (y - 1901) div 100"
  define c where "c = (y - 1601) div 400"
  have d: "DayFromYear y = 365 * (y - 1970) + a - b + c"
    by (simp add: DayFromYear_def a_def b_def c_def)
  have a: "4 * a \<le> y - 1969" "y - 1969 < 4 * a + 4"
    unfolding a_def by (rule div_bounds; simp)+
  have b: "100 * b \<le> y - 1901" "y - 1901 < 100 * b + 100"
    unfolding b_def by (rule div_bounds; simp)+
  have c: "400 * c \<le> y - 1601" "y - 1601 < 400 * c + 400"
    unfolding c_def by (rule div_bounds; simp)+
  show "146097 * (y - 1970) - 506 \<le> 400 * DayFromYear y"
    unfolding d using a b c by (simp add: algebra_simps)
  show "400 * DayFromYear y \<le> 146097 * (y - 1970) + 589"
    unfolding d using a b c by (simp add: algebra_simps)
qed

lemma YearFromDay_bounds:
  "DayFromYear (YearFromDay d) \<le> d" "d < DayFromYear (YearFromDay d + 1)"
proof -
  define e where "e = 1970 + (d * 400) div 146097"
  have q: "146097 * (e - 1970) \<le> d * 400" "d * 400 < 146097 * (e - 1970) + 146097"
    unfolding e_def using div_bounds[of 146097 "d * 400"] by simp_all
  have lo: "DayFromYear (e - 1) \<le> d"
    using DayFromYear_bounds(2)[of "e - 1"] q by (simp add: algebra_simps)
  have hi: "d < DayFromYear (e + 1 + 1)"
    using DayFromYear_bounds(1)[of "e + 1 + 1"] q by (simp add: algebra_simps)
  have y: "YearFromDay d = (if d < DayFromYear e then e - 1
      else if DayFromYear (e + 1) \<le> d then e + 1 else e)"
    by (simp add: YearFromDay_def e_def Let_def)
  show "DayFromYear (YearFromDay d) \<le> d"
    unfolding y using lo by auto
  show "d < DayFromYear (YearFromDay d + 1)"
    unfolding y using hi by auto
qed

lemma YearFromDay_unique:
  assumes "DayFromYear y \<le> d" "d < DayFromYear (y + 1)"
  shows "YearFromDay d = y"
proof (rule ccontr)
  assume "YearFromDay d \<noteq> y"
  then consider "YearFromDay d + 1 \<le> y" | "y + 1 \<le> YearFromDay d" by linarith
  then show False
  proof cases
    case 1
    from DayFromYear_mono[OF this] YearFromDay_bounds(2)[of d] assms(1) show False by linarith
  next
    case 2
    from DayFromYear_mono[OF this] YearFromDay_bounds(1)[of d] assms(2) show False by linarith
  qed
qed

lemma YearFromDay_in_year:
  assumes "0 \<le> k" "k < DaysInYear y"
  shows "YearFromDay (DayFromYear y + k) = y"
  by (rule YearFromDay_unique) (use assms DayFromYear_Suc[of y] in simp_all)

lemma is_leap_year_iff: "is_leap_year y \<longleftrightarrow> DaysInYear y = 366"
proof -
  have "y mod 100 = 0 \<Longrightarrow> y mod 4 = 0" by (rule mod_dvd_zero[of y 100 4]) simp_all
  moreover have "y mod 400 = 0 \<Longrightarrow> y mod 100 = 0" by (rule mod_dvd_zero[of y 400 100]) simp_all
  ultimately show ?thesis
    by (auto simp: is_leap_year_def DaysInYear_def)
qed

lemma Day_MakeDate:
  assumes "0 \<le> tod" "tod < msPerDay"
  shows "Day (MakeDate D tod) = D" "TimeWithinDay (MakeDate D tod) = tod"
proof -
  have e: "MakeDate D tod = msPerDay * D + tod" by (simp add: MakeDate_def)
  show "Day (MakeDate D tod) = D"
    unfolding Day_def using int_div_pos_eq[OF e assms] .
  show "TimeWithinDay (MakeDate D tod) = tod"
    unfolding TimeWithinDay_def using int_mod_pos_eq[OF e assms] .
qed

lemma year_day_of_time:
  assumes "0 \<le> k" "k < DaysInYear y" "0 \<le> tod" "tod < msPerDay"
  defines "t \<equiv> MakeDate (DayFromYear y + k) tod"
  shows "YearFromTime t = y" "DayWithinYear t = k"
    "InLeapYear t = (if is_leap_year y then 1 else 0)"
proof -
  have d: "Day t = DayFromYear y + k"
    unfolding t_def using assms(3,4) by (rule Day_MakeDate)
  show y: "YearFromTime t = y"
    unfolding YearFromTime_def d using assms(1,2) by (rule YearFromDay_in_year)
  show "DayWithinYear t = k"
    unfolding DayWithinYear_def y d by simp
  show "InLeapYear t = (if is_leap_year y then 1 else 0)"
    unfolding InLeapYear_def y is_leap_year_iff ..
qed

lemma month_index_cases:
  assumes "0 \<le> mn" "mn \<le> (11::int)"
  obtains "mn = 0" | "mn = 1" | "mn = 2" | "mn = 3" | "mn = 4" | "mn = 5"
    | "mn = 6" | "mn = 7" | "mn = 8" | "mn = 9" | "mn = 10" | "mn = 11"
proof -
  from assms have "mn = 0 \<or> mn = 1 \<or> mn = 2 \<or> mn = 3 \<or> mn = 4 \<or> mn = 5
    \<or> mn = 6 \<or> mn = 7 \<or> mn = 8 \<or> mn = 9 \<or> mn = 10 \<or> mn = 11"
    by presburger
  then show thesis using that by blast
qed

lemma MakeDay_in_year:
  assumes "0 \<le> mn" "mn \<le> 11"
  shows "MakeDay y mn dt =
           DayFromYear y + (MonthStart mn (if is_leap_year y then 1 else 0) + dt - 1)"
proof -
  from assms have "mn div 12 = 0" "mn mod 12 = mn" by simp_all
  then show ?thesis
    by (simp add: MakeDay_def is_leap_year_iff)
qed

lemma civil_of_MakeDay:
  assumes mn: "0 \<le> mn" "mn \<le> 11"
    and dt: "1 \<le> dt" "dt \<le> days_in_month y (mn + 1)"
    and tod: "0 \<le> tod" "tod < msPerDay"
  defines "t \<equiv> MakeDate (MakeDay y mn dt) tod"
  shows "YearFromTime t = y" "MonthFromTime t = mn" "DateFromTime t = dt"
proof -
  define L :: int where "L = (if is_leap_year y then 1 else 0)"
  define k where "k = MonthStart mn L + dt - 1"
  have t: "t = MakeDate (DayFromYear y + k) tod"
    unfolding t_def k_def L_def MakeDay_in_year[OF mn] ..
  have DY: "DaysInYear y = 365 + L"
    using DaysInYear_cases[of y] by (auto simp: L_def is_leap_year_iff)
  have L: "L = 0 \<or> L = 1" by (simp add: L_def)
  have dim: "days_in_month y (mn + 1) =
      (if mn = 1 then 28 + L else if mn = 3 \<or> mn = 5 \<or> mn = 8 \<or> mn = 10 then 30 else 31)"
    by (auto simp: days_in_month_def L_def)
  have k: "0 \<le> k" "k < DaysInYear y"
    using mn dt L unfolding DY dim k_def
    by (cases rule: month_index_cases[OF mn]; simp add: MonthStart_def; fastforce)+
  note yd = year_day_of_time[OF k tod, folded t L_def]
  show "YearFromTime t = y" by (rule yd(1))
  have m: "MonthFromTime t = mn"
    unfolding MonthFromTime_def yd Let_def
    using mn dt L unfolding dim k_def
    by (cases rule: month_index_cases[OF mn]; simp add: MonthStart_def; fastforce)
  show "MonthFromTime t = mn" by (rule m)
  show "DateFromTime t = dt"
    unfolding DateFromTime_def m yd Let_def k_def
    by (cases rule: month_index_cases[OF mn]; simp add: MonthStart_def)
qed

subsection \<open>The dates of a month\<close>

lemma msPerDay_pos: "0 < msPerDay"
  by (simp add: msPerDay_def)

lemma days_in_month_range: "28 \<le> days_in_month y m" "days_in_month y m \<le> 31"
  by (simp_all add: days_in_month_def)

lemma MonthStart_range:
  assumes "0 \<le> mn" "mn \<le> 11" "L = 0 \<or> L = 1"
  shows "0 \<le> MonthStart mn L" "MonthStart mn L \<le> 335"
  using assms(3) by (cases rule: month_index_cases[OF assms(1,2)]; auto simp: MonthStart_def)+

lemma DayFromYear_range:
  assumes "1900 \<le> y" "y \<le> 2100"
  shows "- 30000 \<le> DayFromYear y" "DayFromYear y \<le> 50000"
  using DayFromYear_bounds[of y] assms by (simp_all add: algebra_simps)

lemma month_day_eq:
  assumes "1 \<le> m" "m \<le> 12"
  shows "month_day y m d =
     (DayFromYear y + MonthStart (m - 1) (if is_leap_year y then 1 else 0) + d - 1) * msPerDay"
  using assms by (simp add: month_day_def MakeDate_def MakeDay_in_year)

lemma month_day_step: "month_day y m d = month_day y m 1 + (d - 1) * msPerDay"
  by (simp add: month_day_def MakeDate_def MakeDay_def Let_def algebra_simps)

lemma month_day_clip:
  assumes "1900 \<le> y" "y \<le> 2100" "1 \<le> m" "m \<le> 12" "1 \<le> d" "d \<le> 31"
  shows "TimeClip (month_day y m d) = Some (month_day y m d)"
proof -
  define D where "D = DayFromYear y + MonthStart (m - 1) (if is_leap_year y then 1 else 0) + d - 1"
  have "- 30000 \<le> D" "D \<le> 51000"
    using DayFromYear_range[OF assms(1,2)] assms(3-6)
      MonthStart_range[of "m - 1" "if is_leap_year y then 1 else 0"]
    by (auto simp: D_def)
  then have "\<bar>D * msPerDay\<bar> \<le> 8640000000000000"
    by (simp add: msPerDay_def abs_le_iff)
  then show ?thesis
    unfolding month_day_eq[OF assms(3,4)] D_def[symmetric] by (simp add: TimeClip_def)
qed

lemma new_Date_month_day:
  assumes "1900 \<le> y" "y \<le> 2100" "1 \<le> m" "m \<le> 12" "1 \<le> d" "d \<le> 31"
  shows "new_Date y (m - 1) d = Some (month_day y m d)"
  using month_day_clip[OF assms] assms(1)
  by (simp add: new_Date_def month_day_def MakeTime_def)

lemma month_day_civil:
  assumes "1 \<le> m" "m \<le> 12" "1 \<le> d" "d \<le> days_in_month y m"
  shows "YearFromTime (month_day y m d) = y" "MonthFromTime (month_day y m d) = m - 1"
    "DateFromTime (month_day y m d) = d" "Day (month_day y m d) = MakeDay y (m - 1) d"
    "TimeWithinDay (month_day y m d) = 0"
  unfolding month_day_def
  using civil_of_MakeDay[of "m - 1" d y 0] Day_MakeDate[of 0 "MakeDay y (m - 1) d"] assms msPerDay_pos
  by simp_all

lemma startOfDay_month_day:
  assumes "1900 \<le> y" "y \<le> 2100" "1 \<le> m" "m \<le> 12" "1 \<le> d" "d \<le> days_in_month y m"
  shows "startOfDay (Some (month_day y m d)) = Some (month_day y m d)"
proof -
  have d31: "d \<le> 31" using assms(6) days_in_month_range(2)[of y m] by linarith
  have "MakeDate (Day (month_day y m d)) (MakeTime 0 0 0 0) = month_day y m d"
    unfolding month_day_civil(4)[OF assms(3-6)] by (simp add: month_day_def MakeTime_def)
  then show ?thesis
    using month_day_clip[OF assms(1-5) d31]
    by (simp add: startOfDay_def Date_setHours_def)
qed

lemma setDate_month_day:
  assumes "1900 \<le> y" "y \<le> 2100" "1 \<le> m" "m \<le> 12" "1 \<le> d" "d \<le> days_in_month y m"
    and "1 \<le> d'" "d' \<le> 31"
  shows "setDate (Some (month_day y m d)) d' = Some (month_day y m d')"
  using month_day_clip[OF assms(1-4,7,8)]
  by (simp add: setDate_def Date_setDate_def month_day_civil[OF assms(3-6)])
     (simp add: month_day_def)

lemma startOfMonth_first:
  assumes "1900 \<le> y" "y \<le> 2100" "1 \<le> m" "m \<le> 12"
  shows "startOfMonth (Some (month_day y m 1)) = Some (month_day y m 1)"
proof -
  have one: "(1::int) \<le> days_in_month y m" using days_in_month_range(1)[of y m] by linarith
  have "Date_setDate (Some (month_day y m 1)) 1 = Some (month_day y m 1)"
    using setDate_month_day[OF assms _ one, of 1] by (simp add: setDate_def)
  then show ?thesis
    using startOfDay_month_day[OF assms _ one]
    by (simp add: startOfMonth_def startOfDay_def)
qed

lemma MakeDay_next_month:
  assumes "0 \<le> mn" "mn \<le> 11"
  shows "MakeDay y (mn + 1) 0 = MakeDay y mn (days_in_month y (mn + 1))"
proof (cases "mn = 11")
  case True
  have "MakeDay y 12 0 = DayFromYear (y + 1) - 1"
    by (simp add: MakeDay_def MonthStart_def)
  also have "\<dots> = DayFromYear y + DaysInYear y - 1"
    by (simp add: DayFromYear_Suc)
  also have "\<dots> = MakeDay y 11 31"
    using DaysInYear_cases[of y]
    by (auto simp: MakeDay_in_year MonthStart_def is_leap_year_iff)
  finally show ?thesis using True by (simp add: days_in_month_def)
next
  case False
  with assms have a: "0 \<le> mn + 1" "mn + 1 \<le> 11" by simp_all
  show ?thesis
    unfolding MakeDay_in_year[OF a] MakeDay_in_year[OF assms]
    using False
    by (cases rule: month_index_cases[OF assms]; simp add: MonthStart_def days_in_month_def)
qed

lemma getDaysInMonth_first:
  assumes "1 \<le> m" "m \<le> 12"
  shows "getDaysInMonth (Some (month_day y m 1)) = Some (days_in_month y m)"
proof -
  have one: "(1::int) \<le> days_in_month y m" using days_in_month_range(1)[of y m] by linarith
  have n: "MakeDay y m 0 = MakeDay y (m - 1) (days_in_month y m)"
    using MakeDay_next_month[of "m - 1" y] assms by simp
  have "DateFromTime (MakeDate (MakeDay y m 0) (MakeTime 0 0 0 0)) = days_in_month y m"
    unfolding n using month_day_civil(3)[OF assms one order_refl]
    by (simp add: month_day_def MakeTime_def)
  then show ?thesis
    by (simp add: getDaysInMonth_def month_day_civil(1,2)[OF assms order_refl one])
qed

lemma generateMonthDates_loop_eq:
  "generateMonthDates_loop firstDay n day dates =
     dates @ map (\<lambda>d. normalizeDate (setDate firstDay d)) [day..n]"
proof (induction firstDay n day dates rule: generateMonthDates_loop.induct)
  case (1 firstDay daysInMonth day dates)
  show ?case
  proof (cases "day \<le> daysInMonth")
    case True
    then have "[day..daysInMonth] = day # [day + 1..daysInMonth]"
      by (simp add: upto_rec1)
    with True 1 show ?thesis
      by (subst generateMonthDates_loop.simps) simp
  next
    case False
    then show ?thesis
      by (subst generateMonthDates_loop.simps) simp
  qed
qed

lemma generateMonthDates_valid:
  assumes "1900 \<le> y" "y \<le> 2100" "1 \<le> m" "m \<le> 12"
  shows "generateMonthDates (of_int y) (of_int m) =
           Inr (map (\<lambda>d. Some (month_day y m d)) [1..days_in_month y m])"
proof -
  have one: "(1::int) \<le> days_in_month y m" using days_in_month_range(1)[of y m] by linarith
  have first: "startOfMonth (new_Date y (m - 1) 1) = Some (month_day y m 1)"
    using new_Date_month_day[OF assms, of 1] startOfMonth_first[OF assms] by simp
  have day: "normalizeDate (setDate (Some (month_day y m 1)) d) = Some (month_day y m d)"
    if "d \<in> set [1..days_in_month y m]" for d
  proof -
    from that have d: "1 \<le> d" "d \<le> days_in_month y m" by simp_all
    then have "d \<le> 31" using days_in_month_range(2)[of y m] by linarith
    from setDate_month_day[OF assms _ one d(1) this] startOfDay_month_day[OF assms d]
    show ?thesis by (simp add: normalizeDate_def)
  qed
  have "generateMonthDates_loop (Some (month_day y m 1)) (days_in_month y m) 1 [] =
      map (\<lambda>d. Some (month_day y m d)) [1..days_in_month y m]"
    unfolding generateMonthDates_loop_eq using day by simp
  moreover have "\<lfloor>(of_int m :: rat) - 1\<rfloor> = m - 1"
    by (metis floor_of_int of_int_1 of_int_diff)
  ultimately show ?thesis
    using assms first getDaysInMonth_first[OF assms(3,4), of y]
    by (simp add: generateMonthDates_def Number_isInteger_def)
qed

subsection \<open>Mapping a callback that may throw\<close>

lemma Array_map_Inr_iff:
  "Array_map f xs = Inr ys \<longleftrightarrow> list_all2 (\<lambda>x y. f x = Inr y) xs ys"
proof
  show "Array_map f xs = Inr ys \<Longrightarrow> list_all2 (\<lambda>x y. f x = Inr y) xs ys"
    by (induction xs arbitrary: ys) (auto split: sum.splits)
  show "list_all2 (\<lambda>x y. f x = Inr y) xs ys \<Longrightarrow> Array_map f xs = Inr ys"
    by (induction rule: list_all2_induct) simp_all
qed

lemma Array_map_Inl:
  "Array_map f xs = Inl e \<Longrightarrow> \<exists>x\<in>set xs. f x = Inl e"
  by (induction xs) (auto split: sum.splits)

lemma Array_map_fails:
  "x \<in> set xs \<Longrightarrow> f x = Inl e \<Longrightarrow> \<exists>e'. Array_map f xs = Inl e'"
  by (induction xs) (auto split: sum.splits)

lemma Array_map_returns:
  "(\<forall>x\<in>set xs. \<exists>y. f x = Inr y) \<Longrightarrow> \<exists>ys. Array_map f xs = Inr ys"
  by (induction xs) (auto split: sum.splits)

lemma Array_map_nth:
  assumes "Array_map f xs = Inr ys"
  shows "length ys = length xs" and "i < length xs \<Longrightarrow> f (xs ! i) = Inr (ys ! i)"
proof -
  from assms have a: "list_all2 (\<lambda>x y. f x = Inr y) xs ys"
    by (simp only: Array_map_Inr_iff)
  from list_all2_lengthD[OF a] show "length ys = length xs" by simp
  show "f (xs ! i) = Inr (ys ! i)" if "i < length xs"
    using list_all2_nthD[OF a that] .
qed

subsection \<open>Looking a day up\<close>

lemma normalizeDate_idem: "normalizeDate (normalizeDate d) = normalizeDate d"
proof (cases d)
  case None
  then show ?thesis by (simp add: normalizeDate_def startOfDay_def Date_setHours_def)
next
  case (Some t)
  have "Day (MakeDate (Day t) 0) = Day t"
    by (rule Day_MakeDate) (simp_all add: msPerDay_def)
  then show ?thesis
    using Some
    by (simp add: normalizeDate_def startOfDay_def Date_setHours_def TimeClip_def MakeTime_def)
qed

lemma find_map: "find P (map f xs) = map_option f (find (\<lambda>x. P (f x)) xs)"
  by (induction xs) simp_all

lemma findRecordForDate_normalized:
  "findRecordForDate day
     (map (\<lambda>record. record\<lparr>RawAttendanceInput.date :=
                           normalizeDate (RawAttendanceInput.date record)\<rparr>) rawRecords) =
   map_option (\<lambda>record. record\<lparr>RawAttendanceInput.date :=
                           normalizeDate (RawAttendanceInput.date record)\<rparr>)
     (first_match rawRecords day)"
  by (simp add: findRecordForDate_def first_match_def find_map normalizeDate_idem Date_getTime_def)

lemma firstEmployeeId_normalized:
  "firstEmployeeId
     (map (\<lambda>record. record\<lparr>RawAttendanceInput.date :=
                           normalizeDate (RawAttendanceInput.date record)\<rparr>) rawRecords) =
   (case rawRecords of [] \<Rightarrow> [] | r # _ \<Rightarrow> RawAttendanceInput.employeeId r)"
  by (simp add: firstEmployeeId_def split: list.splits)

lemma processDate_normalized:
  "processDate
     (map (\<lambda>record. record\<lparr>RawAttendanceInput.date :=
                           normalizeDate (RawAttendanceInput.date record)\<rparr>) rawRecords) day =
   (case first_match rawRecords day of
      Some r \<Rightarrow>
        (case calculateWorkedHours (RawAttendanceInput.inTime r) (RawAttendanceInput.outTime r) of
           Inl e \<Rightarrow> Inl e
         | Inr w \<Rightarrow>
             Inr \<lparr>employeeId = RawAttendanceInput.employeeId r, date = day,
                  inTime = Some (RawAttendanceInput.inTime r),
                  outTime = Some (RawAttendanceInput.outTime r),
                  workedHours = w, status = PRESENT\<rparr>)
    | None \<Rightarrow>
        Inr \<lparr>employeeId = (case rawRecords of [] \<Rightarrow> [] | r # _ \<Rightarrow> RawAttendanceInput.employeeId r),
             date = day, inTime = None, outTime = None, workedHours = 0,
             status = (if isSunday day then WEEKEND else ABSENT)\<rparr>)"
  unfolding processDate_def findRecordForDate_normalized firstEmployeeId_normalized
  by (simp split: option.splits sum.splits)

lemma processMonthlyAttendance_valid:
  assumes "1900 \<le> y" "y \<le> 2100" "1 \<le> m" "m \<le> 12"
  shows "processMonthlyAttendance (of_int y) (of_int m) rawRecords =
     Array_map
       (processDate (map (\<lambda>record. record\<lparr>RawAttendanceInput.date :=
                           normalizeDate (RawAttendanceInput.date record)\<rparr>) rawRecords))
       (map (\<lambda>d. new_Date y (m - 1) d) [1..days_in_month y m])"
proof -
  have eq: "map (\<lambda>d. Some (month_day y m d)) [1..days_in_month y m] =
        map (\<lambda>d. new_Date y (m - 1) d) [1..days_in_month y m]"
  proof (rule map_cong[OF refl])
    fix d assume "d \<in> set [1..days_in_month y m]"
    then have "1 \<le> d" "d \<le> 31" using days_in_month_range(2)[of y m] by simp_all
    from new_Date_month_day[OF assms this]
    show "Some (month_day y m d) = new_Date y (m - 1) d" by simp
  qed
  show ?thesis
    by (simp only: processMonthlyAttendance_def generateMonthDates_valid[OF assms]
        Let_def sum.case eq)
qed

subsection \<open>The records of a month\<close>

lemma processMonthlyAttendance_nth:
  assumes ym: "1900 \<le> y" "y \<le> 2100" "1 \<le> m" "m \<le> 12"
    and ok: "processMonthlyAttendance (of_int y) (of_int m) rawRecords = Inr recs"
  shows "length recs = nat (days_in_month y m)"
    and "1 \<le> d \<Longrightarrow> d \<le> days_in_month y m \<Longrightarrow>
      processDate (map (\<lambda>record. record\<lparr>RawAttendanceInput.date :=
                           normalizeDate (RawAttendanceInput.date record)\<rparr>) rawRecords)
        (new_Date y (m - 1) d) = Inr (recs ! nat (d - 1))"
proof -
  note a = ok[unfolded processMonthlyAttendance_valid[OF ym]]
  from Array_map_nth(1)[OF a] show "length recs = nat (days_in_month y m)" by simp
  assume d: "1 \<le> d" "d \<le> days_in_month y m"
  then have "nat (d - 1) < length (map (\<lambda>d. new_Date y (m - 1) d) [1..days_in_month y m])"
    by simp
  from Array_map_nth(2)[OF a this] d
  show "processDate (map (\<lambda>record. record\<lparr>RawAttendanceInput.date :=
                           normalizeDate (RawAttendanceInput.date record)\<rparr>) rawRecords)
        (new_Date y (m - 1) d) = Inr (recs ! nat (d - 1))"
    by simp
qed

lemma processDate_date:
  "processDate rs day = Inr rec \<Longrightarrow> date rec = day"
  by (auto simp: processDate_def split: option.splits sum.splits if_splits)

lemma processMonthlyAttendance_dates:
  assumes ym: "1900 \<le> y" "y \<le> 2100" "1 \<le> m" "m \<le> 12"
    and ok: "processMonthlyAttendance (of_int y) (of_int m) rawRecords = Inr recs"
  shows "map date recs = map (\<lambda>d. new_Date y (m - 1) d) [1..days_in_month y m]"
proof -
  note a = ok[unfolded processMonthlyAttendance_valid[OF ym] Array_map_Inr_iff]
  have "list_all2 (\<lambda>x rec. date rec = x) xs recs"
    if "list_all2 (\<lambda>x rec. processDate rs x = Inr rec) xs recs" for rs xs
    using that by (rule list_all2_mono) (simp add: processDate_date)
  from this[OF a]
  have "list_all2 (\<lambda>x rec. date rec = x)
          (map (\<lambda>d. new_Date y (m - 1) d) [1..days_in_month y m]) recs" .
  then show ?thesis
    by (induction rule: list_all2_induct) simp_all
qed

lemma processMonthlyAttendance_returns_iff:
  assumes ym: "1900 \<le> y" "y \<le> 2100" "1 \<le> m" "m \<le> 12"
  shows "(\<exists>recs. processMonthlyAttendance (of_int y) (of_int m) rawRecords = Inr recs) \<longleftrightarrow>
     (\<forall>d r. 1 \<le> d \<and> d \<le> days_in_month y m
        \<and> first_match rawRecords (new_Date y (m - 1) d) = Some r \<longrightarrow>
        (\<exists>w. calculateWorkedHours (RawAttendanceInput.inTime r) (RawAttendanceInput.outTime r) = Inr w))"
    (is "?L \<longleftrightarrow> ?R")
proof
  assume ?L
  then obtain recs where ok: "processMonthlyAttendance (of_int y) (of_int m) rawRecords = Inr recs"
    by blast
  show ?R
  proof (intro allI impI, elim conjE)
    fix d r
    assume d: "1 \<le> d" "d \<le> days_in_month y m"
      and r: "first_match rawRecords (new_Date y (m - 1) d) = Some r"
    from processMonthlyAttendance_nth(2)[OF ym ok d] r
    show "\<exists>w. calculateWorkedHours (RawAttendanceInput.inTime r) (RawAttendanceInput.outTime r) = Inr w"
      unfolding processDate_normalized by (auto split: sum.splits)
  qed
next
  assume r: ?R
  have "\<exists>rec. processDate (map (\<lambda>record. record\<lparr>RawAttendanceInput.date :=
                           normalizeDate (RawAttendanceInput.date record)\<rparr>) rawRecords) x = Inr rec"
    if "x \<in> set (map (\<lambda>d. new_Date y (m - 1) d) [1..days_in_month y m])" for x
  proof -
    from that obtain d where d: "1 \<le> d" "d \<le> days_in_month y m" and x: "x = new_Date y (m - 1) d"
      by auto
    show ?thesis
    proof (cases "first_match rawRecords x")
      case None
      then show ?thesis unfolding processDate_normalized by simp
    next
      case (Some rr)
      with r d x obtain w where
        "calculateWorkedHours (RawAttendanceInput.inTime rr) (RawAttendanceInput.outTime rr) = Inr w"
        by blast
      with Some show ?thesis unfolding processDate_normalized by simp
    qed
  qed
  then show ?L
    unfolding processMonthlyAttendance_valid[OF ym] by (intro Array_map_returns) blast
qed

lemma first_match_Nil: "first_match [] day = None"
  by (simp add: first_match_def)

lemma processMonthlyAttendance_empty:
  assumes ym: "1900 \<le> y" "y \<le> 2100" "1 \<le> m" "m \<le> 12"
  shows "\<exists>recs. processMonthlyAttendance (of_int y) (of_int m) [] = Inr recs"
  unfolding processMonthlyAttendance_returns_iff[OF ym] by (simp add: first_match_Nil)

lemma new_Date_civil:
  assumes "1900 \<le> y" "y \<le> 2100" "1 \<le> m" "m \<le> 12" "1 \<le> d" "d \<le> days_in_month y m"
  shows "\<exists>t. new_Date y (m - 1) d = Some t \<and> YearFromTime t = y \<and> MonthFromTime t = m - 1
           \<and> DateFromTime t = d \<and> TimeWithinDay t = 0
           \<and> (d < days_in_month y m \<longrightarrow> new_Date y (m - 1) (d + 1) = Some (t + msPerDay))"
proof -
  have d31: "d \<le> 31" using assms(6) days_in_month_range(2)[of y m] by linarith
  have n: "new_Date y (m - 1) d = Some (month_day y m d)"
    by (rule new_Date_month_day[OF assms(1-5) d31])
  have s: "new_Date y (m - 1) (d + 1) = Some (month_day y m d + msPerDay)"
    if "d < days_in_month y m"
  proof -
    from that have "1 \<le> d + 1" "d + 1 \<le> 31"
      using assms(5) days_in_month_range(2)[of y m] by linarith+
    from new_Date_month_day[OF assms(1-4) this]
    show ?thesis
      using month_day_step[of y m "d + 1"] month_day_step[of y m d]
      by (simp add: algebra_simps)
  qed
  from n s month_day_civil[OF assms(3-6)] show ?thesis by simp
qed

lemma month_dates_distinct:
  assumes "1900 \<le> y" "y \<le> 2100" "1 \<le> m" "m \<le> 12"
  shows "distinct (map (\<lambda>d. new_Date y (m - 1) d) [1..days_in_month y m])"
proof -
  have "inj_on (\<lambda>d. new_Date y (m - 1) d) (set [1..days_in_month y m])"
  proof (rule inj_onI)
    fix a b
    assume a: "a \<in> set [1..days_in_month y m]" and b: "b \<in> set [1..days_in_month y m]"
      and e: "new_Date y (m - 1) a = new_Date y (m - 1) b"
    from a have a': "1 \<le> a" "a \<le> days_in_month y m" by simp_all
    from b have b': "1 \<le> b" "b \<le> days_in_month y m" by simp_all
    from new_Date_civil[OF assms a'] obtain ta where
      ta: "new_Date y (m - 1) a = Some ta" "DateFromTime ta = a" by blast
    from new_Date_civil[OF assms b'] obtain tb where
      tb: "new_Date y (m - 1) b = Some tb" "DateFromTime tb = b" by blast
    from e ta(1) tb(1) have "ta = tb" by simp
    with ta(2) tb(2) show "a = b" by simp
  qed
  then show ?thesis
    by (simp add: distinct_map)
qed

subsection \<open>Claims about the monthly processor\<close>

lemma processMonthlyAttendance_shape:
  assumes ym: "1900 \<le> y" "y \<le> 2100" "1 \<le> m" "m \<le> 12"
    and ok: "processMonthlyAttendance (of_int y) (of_int m) rawRecords = Inr recs"
    and d: "1 \<le> d" "d \<le> days_in_month y m"
  shows "\<exists>t. date (recs ! nat (d - 1)) = Some t \<and> YearFromTime t = y \<and> MonthFromTime t = m - 1
           \<and> DateFromTime t = d \<and> TimeWithinDay t = 0
           \<and> (d < days_in_month y m \<longrightarrow> date (recs ! nat d) = Some (t + msPerDay))"
proof -
  have this_day: "date (recs ! nat (d - 1)) = new_Date y (m - 1) d"
    using processMonthlyAttendance_nth(2)[OF ym ok d] by (rule processDate_date)
  have next_day: "date (recs ! nat d) = new_Date y (m - 1) (d + 1)" if "d < days_in_month y m"
  proof -
    from that d have "1 \<le> d + 1" "d + 1 \<le> days_in_month y m" by simp_all
    from processMonthlyAttendance_nth(2)[OF ym ok this] show ?thesis
      by (simp add: processDate_date)
  qed
  from new_Date_civil[OF ym d] this_day next_day show ?thesis
    by auto
qed

text \<open>
  C1, as the claim states it, fails: for January 2024 and the single entry of 2 January
  with the check-in time \<^verbatim>\<open>abc\<close>, the call returns no record at all.
\<close>

theorem processMonthlyAttendance_every_list_counterexample:
  "processMonthlyAttendance 2024 1
     [\<lparr>RawAttendanceInput.employeeId = ''e1'', date = new_Date 2024 0 2,
       inTime = ''abc'', outTime = ''17:30''\<rparr>] =
   Inl (InvalidTimeFormatError ''abc'' ''Use 24-hour format: HH:MM (e.g., 09:30, 14:45).'')"
  by code_simp

text \<open>
  C1, amended. For a year in 1900 to 2100 and a month in 1 to 12, the call returns exactly
  when every raw entry that is the first match of a day of the month has times that
  \<^verbatim>\<open>calculateWorkedHours\<close> accepts, in particular for the empty list and whatever the
  entries dated outside the month. When it returns, there is one record per calendar day:
  as many records as the month has days (28 to 31, with the leap years), the record at
  position \<open>d\<close> dated midnight of day \<open>d\<close> of that month and year, one day after the
  record before it, and no date twice.
\<close>

theorem processMonthlyAttendance_month:
  "1900 \<le> y \<and> y \<le> 2100 \<and> 1 \<le> m \<and> m \<le> 12 \<longrightarrow>
     ((\<exists>recs. processMonthlyAttendance (of_int y) (of_int m) rawRecords = Inr recs) \<longleftrightarrow>
        (\<forall>d r. 1 \<le> d \<and> d \<le> days_in_month y m
           \<and> first_match rawRecords (new_Date y (m - 1) d) = Some r \<longrightarrow>
           (\<exists>w. calculateWorkedHours (RawAttendanceInput.inTime r)
                   (RawAttendanceInput.outTime r) = Inr w)))
     \<and> (\<exists>recs. processMonthlyAttendance (of_int y) (of_int m) [] = Inr recs)
     \<and> (processMonthlyAttendance (of_int y) (of_int m) rawRecords = Inr recs \<longrightarrow>
          length recs = nat (days_in_month y m)
          \<and> 28 \<le> days_in_month y m \<and> days_in_month y m \<le> 31
          \<and> map date recs = map (\<lambda>d. new_Date y (m - 1) d) [1..days_in_month y m]
          \<and> distinct (map date recs)
          \<and> (\<forall>d. 1 \<le> d \<and> d \<le> days_in_month y m \<longrightarrow>
                (\<exists>t. date (recs ! nat (d - 1)) = Some t
                   \<and> YearFromTime t = y \<and> MonthFromTime t = m - 1 \<and> DateFromTime t = d
                   \<and> TimeWithinDay t = 0
                   \<and> (d < days_in_month y m \<longrightarrow>
                        date (recs ! nat d) = Some (t + msPerDay)))))"
proof (intro impI, elim conjE)
  assume ym: "1900 \<le> y" "y \<le> 2100" "1 \<le> m" "m \<le> 12"
  have shape: "length recs = nat (days_in_month y m)
          \<and> 28 \<le> days_in_month y m \<and> days_in_month y m \<le> 31
          \<and> map date recs = map (\<lambda>d. new_Date y (m - 1) d) [1..days_in_month y m]
          \<and> distinct (map date recs)
          \<and> (\<forall>d. 1 \<le> d \<and> d \<le> days_in_month y m \<longrightarrow>
                (\<exists>t. date (recs ! nat (d - 1)) = Some t
                   \<and> YearFromTime t = y \<and> MonthFromTime t = m - 1 \<and> DateFromTime t = d
                   \<and> TimeWithinDay t = 0
                   \<and> (d < days_in_month y m \<longrightarrow>
                        date (recs ! nat d) = Some (t + msPerDay))))"
    if ok: "processMonthlyAttendance (of_int y) (of_int m) rawRecords = Inr recs"
  proof -
    note dates = processMonthlyAttendance_dates[OF ym ok]
    have "distinct (map date recs)"
      unfolding dates by (rule month_dates_distinct[OF ym])
    with processMonthlyAttendance_nth(1)[OF ym ok] days_in_month_range[of y m] dates
      processMonthlyAttendance_shape[OF ym ok]
    show ?thesis by blast
  qed
  from processMonthlyAttendance_returns_iff[OF ym, of rawRecords]
    processMonthlyAttendance_empty[OF ym] shape
  show "((\<exists>recs. processMonthlyAttendance (of_int y) (of_int m) rawRecords = Inr recs) \<longleftrightarrow>
        (\<forall>d r. 1 \<le> d \<and> d \<le> days_in_month y m
           \<and> first_match rawRecords (new_Date y (m - 1) d) = Some r \<longrightarrow>
           (\<exists>w. calculateWorkedHours (RawAttendanceInput.inTime r)
                   (RawAttendanceInput.outTime r) = Inr w)))
     \<and> (\<exists>recs. processMonthlyAttendance (of_int y) (of_int m) [] = Inr recs)
     \<and> (processMonthlyAttendance (of_int y) (of_int m) rawRecords = Inr recs \<longrightarrow>
          length recs = nat (days_in_month y m)
          \<and> 28 \<le> days_in_month y m \<and> days_in_month y m \<le> 31
          \<and> map date recs = map (\<lambda>d. new_Date y (m - 1) d) [1..days_in_month y m]
          \<and> distinct (map date recs)
          \<and> (\<forall>d. 1 \<le> d \<and> d \<le> days_in_month y m \<longrightarrow>
                (\<exists>t. date (recs ! nat (d - 1)) = Some t
                   \<and> YearFromTime t = y \<and> MonthFromTime t = m - 1 \<and> DateFromTime t = d
                   \<and> TimeWithinDay t = 0
                   \<and> (d < days_in_month y m \<longrightarrow>
                        date (recs ! nat d) = Some (t + msPerDay)))))"
    by blast
qed

lemma days_in_feb_2024: "days_in_month 2024 2 = 29"
  by (simp add: days_in_month_def is_leap_year_def)

theorem processMonthlyAttendance_month_witness:
  "(1900::int) \<le> 2024 \<and> (2024::int) \<le> 2100 \<and> (1::int) \<le> 2 \<and> (2::int) \<le> 12
   \<and> (\<exists>recs. processMonthlyAttendance 2024 2 [] = Inr recs \<and> length recs = 29
         \<and> (\<exists>t. date (recs ! 28) = Some t \<and> YearFromTime t = 2024 \<and> MonthFromTime t = 1
               \<and> DateFromTime t = 29))"
proof -
  note th = processMonthlyAttendance_month[of 2024 2 "[]", simplified]
  from th obtain recs where ok: "processMonthlyAttendance 2024 2 [] = Inr recs"
    by blast
  from processMonthlyAttendance_month[of 2024 2 "[]" recs] ok
  have len: "length recs = nat (days_in_month 2024 2)"
    and days: "\<forall>d. 1 \<le> d \<and> d \<le> days_in_month 2024 2 \<longrightarrow>
                (\<exists>t. date (recs ! nat (d - 1)) = Some t
                   \<and> YearFromTime t = 2024 \<and> MonthFromTime t = 2 - 1 \<and> DateFromTime t = d
                   \<and> TimeWithinDay t = 0
                   \<and> (d < days_in_month 2024 2 \<longrightarrow>
                        date (recs ! nat d) = Some (t + msPerDay)))"
    by simp_all
  from days[rule_format, of 29] have
    "\<exists>t. date (recs ! 28) = Some t \<and> YearFromTime t = 2024 \<and> MonthFromTime t = 1
               \<and> DateFromTime t = 29"
    by (auto simp: days_in_feb_2024)
  with ok len show ?thesis
    by (simp add: days_in_feb_2024)
qed

lemma processDate_Inl:
  assumes "processDate (map (\<lambda>record. record\<lparr>RawAttendanceInput.date :=
                           normalizeDate (RawAttendanceInput.date record)\<rparr>) rawRecords) day = Inl e"
  shows "\<exists>r. first_match rawRecords day = Some r
           \<and> calculateWorkedHours (RawAttendanceInput.inTime r) (RawAttendanceInput.outTime r) = Inl e"
  using assms unfolding processDate_normalized
  by (auto split: option.splits sum.splits)

lemma calculateWorkedHours_fails:
  assumes "(\<exists>e. parseTime a = Inl e) \<or> (\<exists>e. parseTime b = Inl e)"
  shows "\<exists>e. calculateWorkedHours a b = Inl e"
  using assms by (auto simp: calculateWorkedHours_def split: sum.splits)

lemma january_2024:
  "case processMonthlyAttendance 2024 1
          [\<lparr>RawAttendanceInput.employeeId = ''e1'', date = new_Date 2024 0 2,
            inTime = ''09:00'', outTime = ''17:30''\<rparr>] of
     Inl e \<Rightarrow> False | Inr recs \<Rightarrow> True"
  by code_simp

lemma january_2024_match:
  "first_match
     [\<lparr>RawAttendanceInput.employeeId = ''e1'', date = new_Date 2024 0 2,
       inTime = ''09:00'', outTime = ''17:30''\<rparr>] (new_Date 2024 0 2) =
   Some \<lparr>RawAttendanceInput.employeeId = ''e1'', date = new_Date 2024 0 2,
         inTime = ''09:00'', outTime = ''17:30''\<rparr>"
  "first_match
     [\<lparr>RawAttendanceInput.employeeId = ''e1'', date = new_Date 2024 0 2,
       inTime = ''09:00'', outTime = ''17:30''\<rparr>] (new_Date 2024 0 7) = None"
  "first_match
     [\<lparr>RawAttendanceInput.employeeId = ''e1'', date = new_Date 2024 0 2,
       inTime = ''abc'', outTime = ''17:30''\<rparr>] (new_Date 2024 0 2) =
   Some \<lparr>RawAttendanceInput.employeeId = ''e1'', date = new_Date 2024 0 2,
         inTime = ''abc'', outTime = ''17:30''\<rparr>"
  by code_simp+

lemma days_in_jan_2024: "days_in_month 2024 1 = 31"
  by (simp add: days_in_month_def)



text \<open>
  C3. If the first raw entry matching some day of the month has a check-in or check-out
  time that \<^verbatim>\<open>parseTime\<close> rejects, the whole call fails: it returns no list, and its
  error is the \<^verbatim>\<open>InvalidTimeFormatError\<close> that \<^verbatim>\<open>calculateWorkedHours\<close> and \<^verbatim>\<open>parseTime\<close>
  raise for an entry matched to a day of the month.
\<close>

theorem processMonthlyAttendance_bad_time:
  "1900 \<le> y \<and> y \<le> 2100 \<and> 1 \<le> m \<and> m \<le> 12 \<and> 1 \<le> d \<and> d \<le> days_in_month y m
   \<and> first_match rawRecords (new_Date y (m - 1) d) = Some r
   \<and> ((\<exists>e. parseTime (RawAttendanceInput.inTime r) = Inl e)
        \<or> (\<exists>e. parseTime (RawAttendanceInput.outTime r) = Inl e)) \<longrightarrow>
     (\<exists>e. processMonthlyAttendance (of_int y) (of_int m) rawRecords = Inl e
        \<and> (\<exists>t s. e = InvalidTimeFormatError t s)
        \<and> (\<exists>d' r'. 1 \<le> d' \<and> d' \<le> days_in_month y m
              \<and> first_match rawRecords (new_Date y (m - 1) d') = Some r'
              \<and> calculateWorkedHours (RawAttendanceInput.inTime r')
                   (RawAttendanceInput.outTime r') = Inl e
              \<and> (parseTime (RawAttendanceInput.inTime r') = Inl e
                   \<or> parseTime (RawAttendanceInput.outTime r') = Inl e)))"
proof (intro impI, elim conjE)
  assume ym: "1900 \<le> y" "y \<le> 2100" "1 \<le> m" "m \<le> 12"
    and d: "1 \<le> d" "d \<le> days_in_month y m"
    and r: "first_match rawRecords (new_Date y (m - 1) d) = Some r"
    and bad: "(\<exists>e. parseTime (RawAttendanceInput.inTime r) = Inl e)
        \<or> (\<exists>e. parseTime (RawAttendanceInput.outTime r) = Inl e)"
  define f where "f = processDate (map (\<lambda>record. record\<lparr>RawAttendanceInput.date :=
                           normalizeDate (RawAttendanceInput.date record)\<rparr>) rawRecords)"
  define days where "days = map (\<lambda>d. new_Date y (m - 1) d) [1..days_in_month y m]"
  have run: "processMonthlyAttendance (of_int y) (of_int m) rawRecords = Array_map f days"
    unfolding f_def days_def by (rule processMonthlyAttendance_valid[OF ym])
  from calculateWorkedHours_fails[OF bad] obtain e0 where
    "calculateWorkedHours (RawAttendanceInput.inTime r) (RawAttendanceInput.outTime r) = Inl e0"
    by blast
  with r have fx: "f (new_Date y (m - 1) d) = Inl e0"
    unfolding f_def processDate_normalized by simp
  have mem: "new_Date y (m - 1) d \<in> set days"
    using d by (simp add: days_def)
  have "\<exists>e. Array_map f days = Inl e"
    using mem fx by (rule Array_map_fails)
  then obtain e where e: "Array_map f days = Inl e" ..
  from Array_map_Inl[OF e] obtain x where x: "x \<in> set days" "f x = Inl e" ..
  from x(1) obtain d' where
    d': "1 \<le> d'" "d' \<le> days_in_month y m" and xd: "x = new_Date y (m - 1) d'"
    unfolding days_def by auto
  from x(2) xd have fd: "f (new_Date y (m - 1) d') = Inl e" by simp
  from processDate_Inl[OF fd[unfolded f_def]] obtain r' where
    r': "first_match rawRecords (new_Date y (m - 1) d') = Some r'"
      "calculateWorkedHours (RawAttendanceInput.inTime r') (RawAttendanceInput.outTime r') = Inl e"
    by blast
  from calculateWorkedHours_error[OF r'(2)]
  have pe: "parseTime (RawAttendanceInput.inTime r') = Inl e
          \<or> parseTime (RawAttendanceInput.outTime r') = Inl e"
    and form: "\<exists>t s. e = InvalidTimeFormatError t s"
    by blast+
  have under: "\<exists>d' r'. 1 \<le> d' \<and> d' \<le> days_in_month y m
              \<and> first_match rawRecords (new_Date y (m - 1) d') = Some r'
              \<and> calculateWorkedHours (RawAttendanceInput.inTime r')
                   (RawAttendanceInput.outTime r') = Inl e
              \<and> (parseTime (RawAttendanceInput.inTime r') = Inl e
                   \<or> parseTime (RawAttendanceInput.outTime r') = Inl e)"
    using d' r' pe by (intro exI[of _ d'] exI[of _ r']) simp
  show "\<exists>e. processMonthlyAttendance (of_int y) (of_int m) rawRecords = Inl e
        \<and> (\<exists>t s. e = InvalidTimeFormatError t s)
        \<and> (\<exists>d' r'. 1 \<le> d' \<and> d' \<le> days_in_month y m
              \<and> first_match rawRecords (new_Date y (m - 1) d') = Some r'
              \<and> calculateWorkedHours (RawAttendanceInput.inTime r')
                   (RawAttendanceInput.outTime r') = Inl e
              \<and> (parseTime (RawAttendanceInput.inTime r') = Inl e
                   \<or> parseTime (RawAttendanceInput.outTime r') = Inl e))"
    unfolding run using e form under by (intro exI[of _ e] conjI)
qed

lemma parse_abc: "parseTime ''abc'' =
    Inl (InvalidTimeFormatError ''abc'' ''Use 24-hour format: HH:MM (e.g., 09:30, 14:45).'')"
  by code_simp

theorem processMonthlyAttendance_bad_time_witness:
  "(1900::int) \<le> 2024 \<and> (2024::int) \<le> 2100 \<and> (1::int) \<le> 1 \<and> (1::int) \<le> 12
   \<and> (1::int) \<le> 2 \<and> (2::int) \<le> days_in_month 2024 1
   \<and> first_match
        [\<lparr>RawAttendanceInput.employeeId = ''e1'', date = new_Date 2024 0 2,
          inTime = ''abc'', outTime = ''17:30''\<rparr>] (new_Date 2024 0 2) =
      Some \<lparr>RawAttendanceInput.employeeId = ''e1'', date = new_Date 2024 0 2,
            inTime = ''abc'', outTime = ''17:30''\<rparr>
   \<and> (\<exists>e. parseTime ''abc'' = Inl e)
   \<and> (\<exists>e t s. processMonthlyAttendance 2024 1
          [\<lparr>RawAttendanceInput.employeeId = ''e1'', date = new_Date 2024 0 2,
            inTime = ''abc'', outTime = ''17:30''\<rparr>] = Inl e
         \<and> e = InvalidTimeFormatError t s)"
proof -
  define bad where "bad = \<lparr>RawAttendanceInput.employeeId = ''e1'', date = new_Date 2024 0 2,
          inTime = ''abc'', outTime = ''17:30''\<rparr>"
  have m: "first_match [bad] (new_Date 2024 0 2) = Some bad"
    unfolding bad_def by (rule january_2024_match(3))
  have p: "\<exists>e. parseTime (RawAttendanceInput.inTime bad) = Inl e"
    by (simp add: bad_def parse_abc)
  have hyp: "(1900::int) \<le> 2024 \<and> (2024::int) \<le> 2100 \<and> (1::int) \<le> 1 \<and> (1::int) \<le> 12
      \<and> (1::int) \<le> 2 \<and> 2 \<le> days_in_month 2024 1
      \<and> first_match [bad] (new_Date 2024 (1 - 1) 2) = Some bad
      \<and> ((\<exists>e. parseTime (RawAttendanceInput.inTime bad) = Inl e)
          \<or> (\<exists>e. parseTime (RawAttendanceInput.outTime bad) = Inl e))"
    using m p by (simp add: days_in_jan_2024)
  from processMonthlyAttendance_bad_time[of 2024 1 2 "[bad]" bad, THEN mp, OF hyp]
  obtain e t s where "processMonthlyAttendance (of_int 2024) (of_int 1) [bad] = Inl e"
    "e = InvalidTimeFormatError t s"
    by blast
  then have "\<exists>e t s. processMonthlyAttendance 2024 1 [bad] = Inl e \<and> e = InvalidTimeFormatError t s"
    by simp
  with m p show ?thesis
    unfolding bad_def by (simp add: days_in_jan_2024)
qed

text \<open>
  C10. With an empty list of raw entries the call returns, and every record has the empty
  string as its \<open>employeeId\<close>. In general a record of a day that no entry matches takes
  its \<open>employeeId\<close> from the first entry of the input list, whatever the date of that
  entry, and the empty string when the list is empty.
\<close>

theorem processMonthlyAttendance_employeeId:
  "(1900 \<le> y \<and> y \<le> 2100 \<and> 1 \<le> m \<and> m \<le> 12 \<longrightarrow>
      (\<exists>recs. processMonthlyAttendance (of_int y) (of_int m) [] = Inr recs
         \<and> length recs = nat (days_in_month y m)
         \<and> (\<forall>i < length recs. employeeId (recs ! i) = [])))
   \<and> (1900 \<le> y \<and> y \<le> 2100 \<and> 1 \<le> m \<and> m \<le> 12
        \<and> processMonthlyAttendance (of_int y) (of_int m) rawRecords = Inr recs'
        \<and> 1 \<le> d \<and> d \<le> days_in_month y m
        \<and> first_match rawRecords (new_Date y (m - 1) d) = None \<longrightarrow>
        employeeId (recs' ! nat (d - 1)) =
          (case rawRecords of [] \<Rightarrow> [] | r # _ \<Rightarrow> RawAttendanceInput.employeeId r))"
proof -
  have gap: "employeeId (recs' ! nat (d - 1)) =
          (case rawRecords of [] \<Rightarrow> [] | r # _ \<Rightarrow> RawAttendanceInput.employeeId r)"
    if ym: "1900 \<le> y" "y \<le> 2100" "1 \<le> m" "m \<le> 12"
      and ok: "processMonthlyAttendance (of_int y) (of_int m) rawRecords = Inr recs'"
      and d: "1 \<le> d" "d \<le> days_in_month y m"
      and none: "first_match rawRecords (new_Date y (m - 1) d) = None"
    for rawRecords recs' d
  proof -
    from processMonthlyAttendance_nth(2)[OF ym ok d, unfolded processDate_normalized] none
    have "recs' ! nat (d - 1) =
        \<lparr>employeeId = (case rawRecords of [] \<Rightarrow> [] | r # _ \<Rightarrow> RawAttendanceInput.employeeId r),
         date = new_Date y (m - 1) d, inTime = None, outTime = None, workedHours = 0,
         status = (if isSunday (new_Date y (m - 1) d) then WEEKEND else ABSENT)\<rparr>"
      by simp
    then show ?thesis by simp
  qed
  have empty: "\<exists>recs. processMonthlyAttendance (of_int y) (of_int m) [] = Inr recs
         \<and> length recs = nat (days_in_month y m)
         \<and> (\<forall>i < length recs. employeeId (recs ! i) = [])"
    if ym: "1900 \<le> y" "y \<le> 2100" "1 \<le> m" "m \<le> 12"
  proof -
    from processMonthlyAttendance_empty[OF ym] obtain recs where
      ok: "processMonthlyAttendance (of_int y) (of_int m) [] = Inr recs" by blast
    note len = processMonthlyAttendance_nth(1)[OF ym ok]
    have "employeeId (recs ! i) = []" if "i < length recs" for i
    proof -
      from that len have "1 \<le> int i + 1" "int i + 1 \<le> days_in_month y m" by simp_all
      from gap[OF ym ok this first_match_Nil] show ?thesis by simp
    qed
    with ok len show ?thesis by blast
  qed
  from gap empty show ?thesis by blast
qed

theorem processMonthlyAttendance_employeeId_witness:
  "(1900::int) \<le> 2024 \<and> (2024::int) \<le> 2100 \<and> (1::int) \<le> 1 \<and> (1::int) \<le> 12
   \<and> (1::int) \<le> 7 \<and> (7::int) \<le> days_in_month 2024 1
   \<and> first_match
        [\<lparr>RawAttendanceInput.employeeId = ''e1'', date = new_Date 2024 0 2,
          inTime = ''09:00'', outTime = ''17:30''\<rparr>] (new_Date 2024 0 7) = None
   \<and> (\<exists>recs. processMonthlyAttendance 2024 1
          [\<lparr>RawAttendanceInput.employeeId = ''e1'', date = new_Date 2024 0 2,
            inTime = ''09:00'', outTime = ''17:30''\<rparr>] = Inr recs
        \<and> employeeId (recs ! 6) = ''e1'')
   \<and> (\<exists>recs. processMonthlyAttendance 2024 1 [] = Inr recs \<and> length recs = 31
        \<and> employeeId (recs ! 0) = [] \<and> employeeId (recs ! 30) = [])"
proof -
  define raws where "raws = [\<lparr>RawAttendanceInput.employeeId = ''e1'', date = new_Date 2024 0 2,
            inTime = ''09:00'', outTime = ''17:30''\<rparr>]"
  from january_2024 obtain recs where ok: "processMonthlyAttendance 2024 1 raws = Inr recs"
    unfolding raws_def by (auto split: sum.splits)
  have none: "first_match raws (new_Date 2024 0 7) = None"
    unfolding raws_def by (rule january_2024_match(2))
  from processMonthlyAttendance_employeeId[of 2024 1 raws recs 7] ok none
  have "employeeId (recs ! 6) = ''e1''"
    by (simp add: days_in_jan_2024 raws_def)
  moreover have "\<exists>recs. processMonthlyAttendance 2024 1 [] = Inr recs \<and> length recs = 31
        \<and> employeeId (recs ! 0) = [] \<and> employeeId (recs ! 30) = []"
  proof -
    from processMonthlyAttendance_employeeId[of 2024 1 "[]" "[]" 1, THEN conjunct1]
    obtain recs0 where e: "processMonthlyAttendance 2024 1 [] = Inr recs0"
      "length recs0 = 31" "\<forall>i < length recs0. employeeId (recs0 ! i) = []"
      by (auto simp: days_in_jan_2024)
    from e(2,3) have "employeeId (recs0 ! 0) = []" "employeeId (recs0 ! 30) = []"
      by simp_all
    with e(1,2) show ?thesis by blast
  qed
  ultimately show ?thesis
    using ok none unfolding raws_def by (simp add: days_in_jan_2024)
qed

subsection \<open>Expected hours\<close>

lemma WeekDay_range: "0 \<le> WeekDay t" "WeekDay t \<le> 6"
  by (simp_all add: WeekDay_def)

lemma getExpectedHours_Some:
  "getExpectedHours (Some t) =
     Inr (if WeekDay t = 0 then 0 else if WeekDay t = 6 then 4 else 17 / 2)"
  by (simp add: getExpectedHours_def Date_getTime_def isSunday_def isSaturday_def
      Date_getDay_def EXPECTED_HOURS_def)

lemma getExpectedHours_None:
  "getExpectedHours None = Inl (InvalidDateError ''Invalid date provided to getExpectedHours'')"
  by (simp add: getExpectedHours_def Date_getTime_def)

lemma WeekDay_next: "WeekDay (t + msPerDay) = (WeekDay t + 1) mod 7"
proof -
  have "Day (t + msPerDay) = Day t + 1"
    by (simp add: Day_def msPerDay_def)
  then show ?thesis
    by (simp add: WeekDay_def mod_simps algebra_simps)
qed

lemma expected_examples:
  "getExpectedHours (new_Date 2024 0 1) = Inr (17 / 2)"
  "getExpectedHours (new_Date 2024 0 6) = Inr 4"
  "getExpectedHours (new_Date 2024 0 7) = Inr 0"
  "getExpectedHours (new_Date 2024 1 29) = Inr (17 / 2)"
  "getExpectedHours (new_Date 2023 6 1) = Inr 4"
  by code_simp+

text \<open>
  C9. For a valid date the expected hours depend on the day of the week alone: 0 on a
  Sunday, 4 on a Saturday, 8.5 from Monday to Friday; an Invalid Date is rejected with an
  \<^verbatim>\<open>InvalidDateError\<close>. Monday 1, Saturday 6 and Sunday 7 January 2024 and Thursday 29
  February 2024 give 8.5, 4, 0 and 8.5.
\<close>

theorem getExpectedHours_by_weekday:
  "getExpectedHours None = Inl (InvalidDateError ''Invalid date provided to getExpectedHours'')
   \<and> getExpectedHours (Some t) =
       Inr (if WeekDay t = 0 then 0 else if WeekDay t = 6 then 4 else 17 / 2)
   \<and> 0 \<le> WeekDay t \<and> WeekDay t \<le> 6
   \<and> WeekDay (t + msPerDay) = (WeekDay t + 1) mod 7
   \<and> (WeekDay t = WeekDay t' \<longrightarrow> getExpectedHours (Some t) = getExpectedHours (Some t'))
   \<and> getExpectedHours (new_Date 2024 0 1) = Inr (17 / 2)
   \<and> getExpectedHours (new_Date 2024 0 6) = Inr 4
   \<and> getExpectedHours (new_Date 2024 0 7) = Inr 0
   \<and> getExpectedHours (new_Date 2024 1 29) = Inr (17 / 2)"
  using WeekDay_range[of t] WeekDay_next[of t] expected_examples
  by (simp add: getExpectedHours_Some getExpectedHours_None)

lemma weekday_examples:
  "WeekDay 1704067200000 = 1" "WeekDay 1704672000000 = 1"
  by (simp_all add: WeekDay_def Day_def msPerDay_def)

theorem getExpectedHours_by_weekday_witness:
  "WeekDay 1704067200000 = WeekDay 1704672000000
   \<and> getExpectedHours (Some 1704067200000) = getExpectedHours (Some 1704672000000)
   \<and> getExpectedHours (Some 1704067200000) = Inr (17 / 2)"
proof -
  have w: "WeekDay 1704067200000 = WeekDay 1704672000000"
    by (simp only: weekday_examples)
  from getExpectedHours_by_weekday[of 1704067200000 1704672000000]
  have "WeekDay 1704067200000 = WeekDay 1704672000000 \<longrightarrow>
      getExpectedHours (Some 1704067200000) = getExpectedHours (Some 1704672000000)"
    and "getExpectedHours (Some 1704067200000) =
       Inr (if WeekDay 1704067200000 = 0 then 0
            else if WeekDay 1704067200000 = 6 then 4 else 17 / 2)"
    by blast+
  with w show ?thesis
    by (simp add: weekday_examples)
qed

subsection \<open>Rounding to a double\<close>

text \<open>
  The binary logarithm brackets its argument; rounding to a double with a normal result
  has a relative error of at most \<open>2\<^sup>-\<^sup>5\<^sup>3\<close>, and a number with a significand of 53 bits
  within the exponent range is its own double.
\<close>

lemma pow2_nat: "0 \<le> k \<Longrightarrow> (2::rat) powi k = of_int (2 ^ nat k)"
  by (simp add: power_int_nonneg_exp)

lemma ilog2_bounds:
  assumes "0 < x"
  shows "2 powi (ilog2 x) \<le> x" and "x < 2 powi (ilog2 x + 1)"
proof -
  obtain p q where pq: "quotient_of x = (p, q)" by (cases "quotient_of x")
  then have q: "0 < q" and x: "x = of_int p / of_int q"
    by (simp_all add: quotient_of_denom_pos quotient_of_div)
  from assms q have p: "0 < p"
    unfolding x by (simp add: zero_less_divide_iff)
  define a where "a = bitlen p"
  define b where "b = bitlen q"
  from bitlen_bounds[OF p] have pb: "2 ^ nat (a - 1) \<le> p" "p < 2 ^ nat a"
    by (simp_all add: a_def)
  from bitlen_bounds[OF q] have qb: "2 ^ nat (b - 1) \<le> q" "q < 2 ^ nat b"
    by (simp_all add: b_def)
  have a1: "1 \<le> a"
  proof (rule ccontr)
    assume "\<not> 1 \<le> a"
    then have "nat a = 0" by simp
    with pb(2) p show False by simp
  qed
  have b1: "1 \<le> b"
  proof (rule ccontr)
    assume "\<not> 1 \<le> b"
    then have "nat b = 0" by simp
    with qb(2) q show False by simp
  qed
  have P: "(2::rat) powi (a - 1) \<le> of_int p" "of_int p < (2::rat) powi a"
  proof -
    have "(of_int (2 ^ nat (a - 1)) :: rat) \<le> of_int p"
      using pb(1) by (simp only: of_int_le_iff)
    then show "(2::rat) powi (a - 1) \<le> of_int p"
      using a1 by (simp only: pow2_nat[of "a - 1"] diff_ge_0_iff_ge)
    have "(of_int p :: rat) < of_int (2 ^ nat a)"
      using pb(2) by (simp only: of_int_less_iff)
    then show "of_int p < (2::rat) powi a"
      using a1 by (simp only: pow2_nat[of a])
  qed
  have Q: "(2::rat) powi (b - 1) \<le> of_int q" "of_int q < (2::rat) powi b"
  proof -
    have "(of_int (2 ^ nat (b - 1)) :: rat) \<le> of_int q"
      using qb(1) by (simp only: of_int_le_iff)
    then show "(2::rat) powi (b - 1) \<le> of_int q"
      using b1 by (simp only: pow2_nat[of "b - 1"] diff_ge_0_iff_ge)
    have "(of_int q :: rat) < of_int (2 ^ nat b)"
      using qb(2) by (simp only: of_int_less_iff)
    then show "of_int q < (2::rat) powi b"
      using b1 by (simp only: pow2_nat[of b])
  qed
  have qpos: "(0::rat) < of_int q" using q by simp
  have up: "x < 2 powi (a - b + 1)"
  proof -
    have "of_int p < (2::rat) powi (a - b + 1) * 2 powi (b - 1)"
      using P(2) by (simp flip: power_int_add)
    also have "\<dots> \<le> 2 powi (a - b + 1) * of_int q"
      using Q(1) by (intro mult_left_mono) simp_all
    finally show ?thesis
      unfolding x using qpos by (simp add: divide_less_eq)
  qed
  have lo: "2 powi (a - b - 1) \<le> x"
  proof -
    have "(2::rat) powi (a - b - 1) * of_int q \<le> 2 powi (a - b - 1) * 2 powi b"
      using Q(2) by (intro mult_left_mono) simp_all
    also have "\<dots> = 2 powi (a - 1)"
      by (simp flip: power_int_add)
    also have "\<dots> \<le> of_int p" by (rule P(1))
    finally show ?thesis
      unfolding x using qpos by (simp add: le_divide_eq)
  qed
  have i: "ilog2 x = (if 2 powi (a - b) \<le> x then a - b else a - b - 1)"
    by (simp add: ilog2_def pq a_def b_def Let_def)
  show "2 powi (ilog2 x) \<le> x"
    unfolding i using lo by simp
  show "x < 2 powi (ilog2 x + 1)"
    unfolding i using up by (simp add: not_le)
qed

lemma round_to_even_close: "\<bar>of_int (round_to_even q) - q\<bar> \<le> 1 / 2"
proof -
  have "of_int \<lfloor>q\<rfloor> \<le> q" "q < of_int \<lfloor>q\<rfloor> + 1" by linarith+
  then show ?thesis
    by (auto simp: round_to_even_def Let_def)
qed

lemma round_to_even_int: "round_to_even (of_int n) = n"
  by (simp add: round_to_even_def)

lemma round_to_even_mono: "q \<le> q' \<Longrightarrow> round_to_even q \<le> round_to_even q'"
proof -
  assume le: "q \<le> q'"
  have f: "\<lfloor>q\<rfloor> \<le> \<lfloor>q'\<rfloor>" using le by (rule floor_mono)
  have a: "of_int \<lfloor>q\<rfloor> \<le> q" "q < of_int \<lfloor>q\<rfloor> + 1" by linarith+
  have b: "of_int \<lfloor>q'\<rfloor> \<le> q'" "q' < of_int \<lfloor>q'\<rfloor> + 1" by linarith+
  show ?thesis
  proof (cases "\<lfloor>q\<rfloor> = \<lfloor>q'\<rfloor>")
    case True
    with le show ?thesis
      by (auto simp: round_to_even_def Let_def)
  next
    case False
    with f have "\<lfloor>q\<rfloor> + 1 \<le> \<lfloor>q'\<rfloor>" by simp
    moreover have "round_to_even q \<le> \<lfloor>q\<rfloor> + 1" by (auto simp: round_to_even_def Let_def)
    moreover have "\<lfloor>q'\<rfloor> \<le> round_to_even q'" by (auto simp: round_to_even_def Let_def)
    ultimately show ?thesis by linarith
  qed
qed


lemma pow2_pos: "(0::rat) < 2 powi k"
  by simp

lemma pow2_less_imp: "(2::rat) powi a < 2 powi b \<Longrightarrow> a < b"
  by (rule ccontr) (simp add: not_less power_int_increasing[of b a "2::rat"] leD)

lemma pow2_le_less_imp: "(2::rat) powi a \<le> x \<Longrightarrow> x < 2 powi b \<Longrightarrow> a < b"
  using pow2_less_imp[of a b] by simp

lemma pow2_mono: "a \<le> b \<Longrightarrow> (2::rat) powi a \<le> 2 powi b"
  by (rule power_int_increasing) simp_all

lemma pow2_add: "(2::rat) powi (a + b) = 2 powi a * 2 powi b"
  by (simp add: power_int_add)

lemma pow2_diff: "(2::rat) powi (a - b) = 2 powi a / 2 powi b"
  by (simp add: power_int_diff)

lemma to_double_normal:
  assumes lo: "2 powi (- 1022) \<le> \<bar>x\<bar>" and hi: "\<bar>x\<bar> < 2 powi 1023"
  shows "\<exists>y. to_double x = Num y \<and> \<bar>y - x\<bar> \<le> \<bar>x\<bar> * 2 powi (- 53)"
proof -
  have x0: "x \<noteq> 0" using lo pow2_pos[of "- 1022"] by auto
  then have ax: "0 < \<bar>x\<bar>" by simp
  define l where "l = ilog2 \<bar>x\<bar>"
  note lb = ilog2_bounds[OF ax, folded l_def]
  have l1: "- 1022 \<le> l"
    using pow2_le_less_imp[OF lo lb(2)] by simp
  have l2: "l \<le> 1022"
    using pow2_le_less_imp[OF lb(1) hi] by simp
  define e where "e = l - 52"
  have e: "max (ilog2 \<bar>x\<bar> - 52) (- 1074) = e"
    using l1 by (simp add: e_def l_def)
  define n where "n = round_to_even (x / 2 powi e)"
  define y :: rat where "y = of_int n * 2 powi e"
  have "\<bar>of_int n - x / 2 powi e\<bar> \<le> 1 / 2"
    unfolding n_def by (rule round_to_even_close)
  then have "\<bar>of_int n - x / 2 powi e\<bar> * 2 powi e \<le> 1 / 2 * 2 powi e"
    by (rule mult_right_mono) simp
  moreover have "\<bar>of_int n - x / 2 powi e\<bar> * 2 powi e = \<bar>y - x\<bar>"
  proof -
    have "\<bar>of_int n - x / 2 powi e\<bar> * 2 powi e = \<bar>(of_int n - x / 2 powi e) * 2 powi e\<bar>"
      by (simp add: abs_mult)
    also have "(of_int n - x / 2 powi e) * 2 powi e = y - x"
      by (simp add: y_def algebra_simps)
    finally show ?thesis .
  qed
  moreover have "1 / 2 * (2::rat) powi e = 2 powi l * 2 powi (- 53)"
  proof -
    have ex: "l + (- 53) = e - 1" by (simp add: e_def)
    have "(2::rat) powi l * 2 powi (- 53) = 2 powi (e - 1)"
      unfolding ex[symmetric] by (rule pow2_add[symmetric])
    also have "\<dots> = 2 powi e / 2"
      by (simp add: pow2_diff)
    finally show ?thesis by simp
  qed
  ultimately have "\<bar>y - x\<bar> \<le> 2 powi l * 2 powi (- 53)" by simp
  also have "\<dots> \<le> \<bar>x\<bar> * 2 powi (- 53)"
    using lb(1) by (rule mult_right_mono) simp
  finally have err: "\<bar>y - x\<bar> \<le> \<bar>x\<bar> * 2 powi (- 53)" .
  have "(2::rat) powi (- 53) \<le> 1"
    by (simp add: power_int_minus field_simps)
  then have "\<bar>x\<bar> * 2 powi (- 53) \<le> \<bar>x\<bar> * 1"
    by (intro mult_left_mono) simp_all
  with err have "\<bar>y\<bar> \<le> 2 * \<bar>x\<bar>" by linarith
  also have "\<dots> < 2 * 2 powi 1023" using hi by simp
  also have "\<dots> = 2 powi 1024" by simp
  finally have "\<not> 2 powi 1024 \<le> \<bar>y\<bar>" by simp
  then have "to_double x = Num y"
    using x0 by (simp add: to_double_def e Let_def y_def n_def)
  with err show ?thesis by blast
qed

lemma to_double_exact:
  assumes x: "x = of_int m * 2 powi k" and m: "\<bar>m\<bar> < 2 ^ 53" and k: "- 1074 \<le> k" "k \<le> 970"
  shows "to_double x = Num x"
proof (cases "x = 0")
  case True
  then show ?thesis by (simp add: to_double_def)
next
  case False
  then have ax: "0 < \<bar>x\<bar>" by simp
  define l where "l = ilog2 \<bar>x\<bar>"
  note lb = ilog2_bounds[OF ax, folded l_def]
  have "(of_int \<bar>m\<bar> :: rat) < of_int (2 ^ 53)"
    using m by (simp only: of_int_less_iff)
  then have m': "\<bar>of_int m :: rat\<bar> < 2 powi 53" by simp
  have absx: "\<bar>x\<bar> = \<bar>of_int m\<bar> * 2 powi k"
    unfolding x by (simp add: abs_mult)
  have "\<bar>x\<bar> < 2 powi 53 * 2 powi k"
    unfolding absx using m' by (rule mult_strict_right_mono) simp
  then have xk: "\<bar>x\<bar> < 2 powi (53 + k)" by (simp only: pow2_add)
  from pow2_le_less_imp[OF lb(1) xk] have lk: "l - 52 \<le> k" by simp
  define e where "e = max (l - 52) (- 1074)"
  have ek: "e \<le> k" using lk k(1) by (simp add: e_def)
  have "x / 2 powi e = of_int m * 2 powi (k - e)"
    unfolding x by (simp add: pow2_diff)
  also have "\<dots> = of_int (m * 2 ^ nat (k - e))"
    using ek by (simp add: pow2_nat)
  finally have "round_to_even (x / 2 powi e) = m * 2 ^ nat (k - e)"
    by (simp only: round_to_even_int)
  then have "(of_int (round_to_even (x / 2 powi e)) :: rat) * 2 powi e =
      of_int m * 2 powi (k - e) * 2 powi e"
    using ek by (simp add: pow2_nat)
  also have "\<dots> = x"
    unfolding x by (simp add: pow2_diff)
  finally have y: "of_int (round_to_even (x / 2 powi e)) * 2 powi e = x" .
  have "53 + k \<le> 1023" using k(2) by simp
  then have "(2::rat) powi (53 + k) \<le> 2 powi 1023" by (rule pow2_mono)
  with xk have "\<bar>x\<bar> < 2 powi 1023" by linarith
  also have "(2::rat) powi 1023 \<le> 2 powi 1024" by (rule pow2_mono) simp
  finally have "\<not> 2 powi 1024 \<le> \<bar>x\<bar>" by simp
  then show ?thesis
    using False y by (simp add: to_double_def Let_def e_def l_def)
qed

lemma to_double_nonneg:
  assumes "0 \<le> x"
  shows "to_double x = PosInf \<or> (\<exists>y. 0 \<le> y \<and> to_double x = Num y)"
proof (cases "x = 0")
  case True
  then show ?thesis by (simp add: to_double_def)
next
  case False
  with assms have x: "0 < x" by simp
  define e where "e = max (ilog2 \<bar>x\<bar> - 52) (- 1074)"
  have "0 \<le> x / 2 powi e" using x by simp
  from round_to_even_mono[OF this] have "0 \<le> round_to_even (x / 2 powi e)"
    using round_to_even_int[of 0] by simp
  then have "0 \<le> (of_int (round_to_even (x / 2 powi e)) :: rat) * 2 powi e" by simp
  then show ?thesis
    using x by (auto simp: to_double_def Let_def e_def)
qed


lemma ulp_facts:
  "(0::rat) < 2 powi (- 53)" "(2::rat) powi (- 53) \<le> 1 / 1000"
  "8 * (2::rat) powi (- 53) = 2 powi (- 50)"
  by (simp_all add: power_int_minus field_simps)

lemma pow2_ranges:
  "(2::rat) powi (- 1022) \<le> 2 powi (- 1021) / 2" "2 * (2::rat) powi 1021 < 2 powi 1023"
  "(2::rat) powi (- 1021) \<le> 2 powi (- 1000)" "1000 * (2::rat) powi 1000 \<le> 2 powi 1021"
proof -
  have a: "(2::rat) powi (- 1021) = 2 powi (- 1022) * 2 powi 1"
    by (simp only: pow2_add[symmetric]) simp
  show "(2::rat) powi (- 1022) \<le> 2 powi (- 1021) / 2"
    unfolding a by simp
  have b: "(2::rat) powi 1023 = 2 powi 1021 * 2 powi 2"
    by (simp only: pow2_add[symmetric]) simp
  show "2 * (2::rat) powi 1021 < 2 powi 1023"
    unfolding b using pow2_pos[of 1021] by simp
  show "(2::rat) powi (- 1021) \<le> 2 powi (- 1000)"
    by (rule pow2_mono) simp
  have c: "(2::rat) powi 1021 = 2 powi 1000 * 2 powi 21"
    by (simp only: pow2_add[symmetric]) simp
  show "1000 * (2::rat) powi 1000 \<le> 2 powi 1021"
    unfolding c using pow2_pos[of 1000] by simp
qed

lemma scale_step:
  fixes d v m c u :: rat
  defines "u \<equiv> 2 powi (- 53)"
  assumes near: "\<bar>d - v\<bar> \<le> v * (c * u)"
    and pos: "0 < v" "0 < m" and c: "0 \<le> c" "c \<le> 8"
    and range: "2 powi (- 1021) \<le> v * m" "v * m \<le> 2 powi 1021"
  shows "\<exists>d'. to_double (d * m) = Num d' \<and> \<bar>d' - v * m\<bar> \<le> (v * m) * ((c + 2) * u)"
proof -
  have u: "0 < u" "u \<le> 1 / 1000" unfolding u_def by (rule ulp_facts)+
  define A where "A = v * m"
  have A: "0 < A" using pos by (simp add: A_def)
  have cu: "0 \<le> c * u" "c * u \<le> 1 / 2"
  proof -
    show "0 \<le> c * u" using c u by simp
    have "c * u \<le> 8 * (1 / 1000)" using c u by (intro mult_mono) simp_all
    then show "c * u \<le> 1 / 2" by simp
  qed
  have "\<bar>d * m - A\<bar> = \<bar>d - v\<bar> * m"
    using pos by (simp add: A_def abs_mult flip: left_diff_distrib)
  also have "\<dots> \<le> v * (c * u) * m" using near pos by (intro mult_right_mono) simp_all
  also have "\<dots> = A * (c * u)" by (simp add: A_def)
  finally have dm: "\<bar>d * m - A\<bar> \<le> A * (c * u)" .
  have Acu: "A * (c * u) \<le> A * (1 / 2)" using cu A by (intro mult_left_mono) simp_all
  then have dmr: "A / 2 \<le> d * m" "d * m \<le> 3 / 2 * A" using dm by (simp_all add: abs_le_iff)
  then have dmp: "\<bar>d * m\<bar> = d * m" using A by simp
  have lo: "2 powi (- 1022) \<le> \<bar>d * m\<bar>"
    unfolding dmp using dmr(1) range(1) pow2_ranges(1) by (simp add: A_def)
  have hi: "\<bar>d * m\<bar> < 2 powi 1023"
    unfolding dmp using dmr(2) range(2) pow2_ranges(2) A by (simp add: A_def)
  from to_double_normal[OF lo hi] obtain d' where
    d': "to_double (d * m) = Num d'" "\<bar>d' - d * m\<bar> \<le> \<bar>d * m\<bar> * u" unfolding u_def by blast
  have "d * m * u \<le> 3 / 2 * A * u" using dmr(2) u by (intro mult_right_mono) simp_all
  also have "3 / 2 * A * u \<le> 2 * (A * u)" using A u by simp
  finally have "d * m * u \<le> 2 * (A * u)" .
  with d'(2) have "\<bar>d' - d * m\<bar> \<le> 2 * (A * u)" unfolding dmp by (rule order_trans)
  with dm have "\<bar>d' - A\<bar> \<le> A * (c * u) + 2 * (A * u)" by (simp add: abs_le_iff)
  also have "\<dots> = A * ((c + 2) * u)" by (simp add: algebra_simps)
  finally show ?thesis using d'(1) unfolding A_def by blast
qed

lemma round_error: "\<bar>of_int (round_to_even (x / 2 powi e)) * 2 powi e - x\<bar> \<le> 2 powi e / 2"
proof -
  define n where "n = round_to_even (x / 2 powi e)"
  have c: "\<bar>of_int n - x / 2 powi e\<bar> \<le> 1 / 2"
    unfolding n_def by (rule round_to_even_close)
  have "of_int n * 2 powi e - x = (of_int n - x / 2 powi e) * 2 powi e"
    by (simp add: algebra_simps)
  then have "\<bar>of_int n * 2 powi e - x\<bar> = \<bar>of_int n - x / 2 powi e\<bar> * 2 powi e"
    by (simp only: abs_mult) simp
  also have "\<dots> \<le> 1 / 2 * 2 powi e"
    using c by (rule mult_right_mono) simp
  finally show ?thesis unfolding n_def by simp
qed

lemma to_double_code [code]:
  "to_double x =
     (if x = 0 then Num 0
      else
        let l = ilog2 \<bar>x\<bar>; e = max (l - 52) (- 1074);
            y = of_int (round_to_even (x / 2 powi e)) * 2 powi e in
        if l < 1023 then Num y
        else if \<bar>y\<bar> \<ge> 2 powi 1024 then (if x > 0 then PosInf else NegInf) else Num y)"
proof (cases "x \<noteq> 0 \<and> ilog2 \<bar>x\<bar> < 1023")
  case True
  then have ax: "0 < \<bar>x\<bar>" by simp
  define l where "l = ilog2 \<bar>x\<bar>"
  define e where "e = max (l - 52) (- 1074)"
  define y :: rat where "y = of_int (round_to_even (x / 2 powi e)) * 2 powi e"
  note lb = ilog2_bounds[OF ax, folded l_def]
  have l: "l + 1 \<le> 1023" using True by (simp add: l_def)
  have e: "e \<le> 970" using l by (simp add: e_def)
  have "\<bar>x\<bar> < 2 powi 1023" using lb(2) pow2_mono[OF l] by simp
  moreover have "(2::rat) powi e \<le> 2 powi 970" using e by (rule pow2_mono)
  moreover have "\<bar>y - x\<bar> \<le> 2 powi e / 2" unfolding y_def by (rule round_error)
  ultimately have "\<bar>y\<bar> < 2 powi 1023 + 2 powi 970 / 2" by linarith
  also have "\<dots> \<le> 2 powi 1024"
  proof -
    have a: "(2::rat) powi 1023 = 2 powi 970 * 2 powi 53"
      by (simp only: pow2_add[symmetric]) simp
    have b: "(2::rat) powi 1024 = 2 powi 970 * 2 powi 54"
      by (simp only: pow2_add[symmetric]) simp
    show ?thesis unfolding a b using pow2_pos[of 970] by simp
  qed
  finally have "\<not> 2 powi 1024 \<le> \<bar>y\<bar>" by simp
  then show ?thesis
    using True unfolding to_double_def Let_def l_def[symmetric] e_def[symmetric] y_def[symmetric]
    by simp
next
  case False
  then show ?thesis
    by (auto simp: to_double_def Let_def)
qed

lemma to_double_error:
  assumes hi: "\<bar>x\<bar> < 2 powi 1023"
  shows "\<exists>y. to_double x = Num y \<and> (0 \<le> x \<longrightarrow> 0 \<le> y)
           \<and> \<bar>y - x\<bar> \<le> \<bar>x\<bar> * 2 powi (- 53) + 2 powi (- 1075)"
proof (cases "x = 0")
  case True
  then show ?thesis by (simp add: to_double_def)
next
  case False
  then have ax: "0 < \<bar>x\<bar>" by simp
  define l where "l = ilog2 \<bar>x\<bar>"
  define e where "e = max (l - 52) (- 1074)"
  define y :: rat where "y = of_int (round_to_even (x / 2 powi e)) * 2 powi e"
  note lb = ilog2_bounds[OF ax, folded l_def]
  have l: "l < 1023" using pow2_le_less_imp[OF lb(1) hi] .
  have td: "to_double x = Num y"
    using False l by (simp add: to_double_code[of x] Let_def l_def e_def y_def)
  have re: "\<bar>y - x\<bar> \<le> 2 powi e / 2" unfolding y_def by (rule round_error)
  have "(2::rat) powi e / 2 \<le> \<bar>x\<bar> * 2 powi (- 53) + 2 powi (- 1075)"
  proof (cases "- 1074 \<le> l - 52")
    case True
    then have e': "e = l - 52" by (simp add: e_def)
    have ex: "l + (- 53) = e - 1" by (simp add: e')
    have "(2::rat) powi l * 2 powi (- 53) = 2 powi (e - 1)"
      unfolding ex[symmetric] by (rule pow2_add[symmetric])
    also have "\<dots> = 2 powi e / 2" by (simp add: pow2_diff)
    finally have "(2::rat) powi e / 2 = 2 powi l * 2 powi (- 53)" by simp
    also have "\<dots> \<le> \<bar>x\<bar> * 2 powi (- 53)"
      using lb(1) by (rule mult_right_mono) simp
    finally show ?thesis using pow2_pos[of "- 1075"] by linarith
  next
    case False
    then have e': "e = - 1074" by (simp add: e_def)
    have "(2::rat) powi (- 1074 - 1) = 2 powi (- 1074) / 2" by (simp only: pow2_diff) simp
    then have "(2::rat) powi e / 2 = 2 powi (- 1075)" by (simp add: e')
    moreover have "0 \<le> \<bar>x\<bar> * 2 powi (- 53)" by simp
    ultimately show ?thesis by linarith
  qed
  with re have err: "\<bar>y - x\<bar> \<le> \<bar>x\<bar> * 2 powi (- 53) + 2 powi (- 1075)" by (rule order_trans)
  have "0 \<le> y" if "0 \<le> x"
    using to_double_nonneg[OF that] td by auto
  with td err show ?thesis by blast
qed

lemma small_error:
  assumes x: "0 \<le> x" "x \<le> B" and B: "B \<le> 2 powi 1000"
  shows "\<exists>y. to_double x = Num y \<and> 0 \<le> y \<and> \<bar>y - x\<bar> \<le> (B + 1) * 2 powi (- 53)"
proof -
  have "(2::rat) powi 1000 < 2 powi 1023"
  proof -
    have b: "(2::rat) powi 1023 = 2 powi 1000 * 2 powi 23"
      by (simp only: pow2_add[symmetric]) simp
    show ?thesis unfolding b using pow2_pos[of 1000] by simp
  qed
  with x B have "\<bar>x\<bar> < 2 powi 1023" by simp
  from to_double_error[OF this] x(1) obtain y where
    y: "to_double x = Num y" "0 \<le> y" "\<bar>y - x\<bar> \<le> \<bar>x\<bar> * 2 powi (- 53) + 2 powi (- 1075)"
    by blast
  have "(2::rat) powi (- 1075) \<le> 2 powi (- 53)" by (rule pow2_mono) simp
  moreover have "\<bar>x\<bar> * 2 powi (- 53) \<le> B * 2 powi (- 53)"
    using x by (intro mult_right_mono) simp_all
  ultimately have "\<bar>y - x\<bar> \<le> B * 2 powi (- 53) + 2 powi (- 53)" using y(3) by linarith
  also have "\<dots> = (B + 1) * 2 powi (- 53)" by (simp add: algebra_simps)
  finally show ?thesis using y(1,2) by blast
qed

lemma small_bounds: "(24::rat) \<le> 2 powi 1000" "(24001::rat) \<le> 2 powi 1000"
  "(2400100::rat) \<le> 2 powi 1000"
proof -
  have "(2::rat) powi 30 \<le> 2 powi 1000" by (rule pow2_mono) simp
  moreover have "(2400100::rat) \<le> 2 powi 30" by simp
  ultimately show "(24::rat) \<le> 2 powi 1000" "(24001::rat) \<le> 2 powi 1000"
    "(2400100::rat) \<le> 2 powi 1000" by linarith+
qed

lemma sum_list_hours: "\<forall>w \<in> set ws. 0 \<le> w \<and> w \<le> (24::rat) \<Longrightarrow>
    0 \<le> sum_list ws \<and> sum_list ws \<le> 24 * of_nat (length ws)"
  by (induction ws) (auto simp: algebra_simps)

lemma sum_doubles_error:
  assumes "\<forall>w \<in> set ws. 0 \<le> w \<and> w \<le> 24" and "length ws \<le> 1000"
  shows "\<exists>t. foldl num_add (Num 0) (map to_double ws) = Num t \<and> 0 \<le> t
           \<and> \<bar>t - sum_list ws\<bar> \<le> of_nat (length ws) * (24027 * 2 powi (- 53))"
  using assms
proof (induction ws rule: rev_induct)
  case Nil
  show ?case by simp
next
  case (snoc w ws)
  define u :: rat where "u = 2 powi (- 53)"
  have u: "0 < u" "24027000 * u \<le> 1 / 2"
    unfolding u_def by (simp_all add: power_int_minus field_simps)
  define n :: rat where "n = of_nat (length ws)"
  have n: "0 \<le> n" "n \<le> 999" using snoc.prems(2) by (simp_all add: n_def)
  from snoc obtain t where
    t: "foldl num_add (Num 0) (map to_double ws) = Num t" "0 \<le> t"
       "\<bar>t - sum_list ws\<bar> \<le> n * (24027 * u)"
    unfolding u_def n_def by auto
  have w: "0 \<le> w" "w \<le> 24" using snoc.prems(1) by simp_all
  have S: "0 \<le> sum_list ws" "sum_list ws \<le> 24 * n"
    using sum_list_hours[of ws] snoc.prems(1) by (simp_all add: n_def)
  from small_error[OF w small_bounds(1)] obtain d where
    d: "to_double w = Num d" "0 \<le> d" "\<bar>d - w\<bar> \<le> 25 * u"
    unfolding u_def by auto
  have nu: "n * (24027 * u) \<le> 999 * (24027 * u)"
    using n u(1) by (intro mult_right_mono) simp_all
  have z: "0 \<le> t + d" "t + d \<le> 24001"
    using t(2,3) d(2,3) S n nu u w by linarith+
  from small_error[OF z small_bounds(2)] obtain t' where
    t': "to_double (t + d) = Num t'" "0 \<le> t'" "\<bar>t' - (t + d)\<bar> \<le> 24002 * u"
    unfolding u_def by auto
  have "\<bar>t' - (sum_list ws + w)\<bar> \<le> n * (24027 * u) + 24027 * u"
    using t'(3) t(3) d(3) by linarith
  also have "\<dots> = of_nat (length (ws @ [w])) * (24027 * u)"
    by (simp add: n_def algebra_simps)
  finally have "\<bar>t' - sum_list (ws @ [w])\<bar> \<le> of_nat (length (ws @ [w])) * (24027 * u)"
    by simp
  moreover have "foldl num_add (Num 0) (map to_double (ws @ [w])) = Num t'"
    by (simp add: t(1) d(1) t'(1))
  ultimately show ?case using t'(2) unfolding u_def by blast
qed

lemma round_hundredths:
  assumes t: "0 \<le> t" and near: "\<bar>t - S\<bar> \<le> 1000 * (24027 * 2 powi (- 53))"
    and S: "0 \<le> S" "S \<le> 24000"
  shows "\<exists>k. num_div (Math_round_num (num_mul (Num t) (Num 100))) (Num 100) =
               to_double (of_int k / 100)
           \<and> \<bar>of_int k - S * 100\<bar> \<le> 1 / 2 + 1 / 100000"
proof -
  define u :: rat where "u = 2 powi (- 53)"
  have u: "0 < u" "u \<le> 1 / 1000000000000000"
    unfolding u_def by (simp_all add: power_int_minus field_simps)
  have near': "\<bar>t - S\<bar> \<le> 1000 * (24027 * u)" using near by (simp add: u_def)
  have z: "0 \<le> t * 100" "t * 100 \<le> 2400100" using t near' S u by linarith+
  from small_error[OF z small_bounds(3)] obtain a where
    a: "to_double (t * 100) = Num a" "0 \<le> a" "\<bar>a - t * 100\<bar> \<le> 2400101 * u"
    unfolding u_def by auto
  define k where "k = \<lfloor>a + 1 / 2\<rfloor>"
  have kf: "of_int k \<le> a + 1 / 2" "a + 1 / 2 < of_int k + 1"
    unfolding k_def using floor_correct[of "a + 1 / 2"] by simp_all
  have "\<bar>of_int k - S * 100\<bar> \<le> 1 / 2 + 1 / 100000"
    using kf a(3) near' u by linarith
  moreover have "num_div (Math_round_num (num_mul (Num t) (Num 100))) (Num 100) =
               to_double (of_int k / 100)"
    by (simp add: a(1) k_def)
  ultimately show ?thesis by blast
qed

lemma hundredths_sum: "\<forall>w \<in> set ws. w * 100 \<in> \<int> \<Longrightarrow> sum_list ws * 100 \<in> (\<int> :: rat set)"
  by (induction ws) (auto simp: algebra_simps)

lemma int_near: "x \<in> \<int> \<Longrightarrow> \<bar>of_int k - x\<bar> < 1 \<Longrightarrow> of_int k = (x::rat)"
proof -
  assume "x \<in> \<int>" and k: "\<bar>of_int k - x\<bar> < 1"
  then obtain j where j: "x = of_int j" by (auto elim: Ints_cases)
  from k have "\<bar>rat_of_int (k - j)\<bar> < 1" by (simp add: j)
  then have "\<bar>k - j\<bar> < 1" by linarith
  then show ?thesis by (simp add: j)
qed

lemma half_exact:
  assumes "0 \<le> M" "M \<le> 17000"
  shows "to_double (of_int M / 2) = Num (of_int M / 2)"
proof -
  have "(of_int M / 2 :: rat) = of_int M * 2 powi (- 1)" by (simp add: power_int_minus)
  moreover have "\<bar>M\<bar> < 2 ^ 53" using assms by simp
  ultimately show ?thesis by (rule to_double_exact) simp_all
qed

lemma expected_sum_exact:
  assumes "set hs \<subseteq> {0, 4, 17 / 2}" and "length hs \<le> 1000"
  shows "foldl num_add (Num 0) (map to_double hs) = Num (sum_list hs)
       \<and> (\<exists>M. sum_list hs = of_int M / 2 \<and> 0 \<le> M \<and> M \<le> 17 * int (length hs))"
  using assms
proof (induction hs rule: rev_induct)
  case Nil
  show ?case by simp
next
  case (snoc h hs)
  then obtain M where M: "foldl num_add (Num 0) (map to_double hs) = Num (sum_list hs)"
    "sum_list hs = of_int M / 2" "0 \<le> M" "M \<le> 17 * int (length hs)" by auto
  from snoc.prems(1) obtain m where m: "h = of_int m / 2" "0 \<le> m" "m \<le> 17"
  proof -
    have "h = 0 \<or> h = 4 \<or> h = 17 / 2" using snoc.prems(1) by auto
    then have "h = of_int 0 / 2 \<or> h = of_int 8 / 2 \<or> h = of_int 17 / 2" by simp
    then show ?thesis using that by fastforce
  qed
  have h: "to_double h = Num h" unfolding m(1) using m(2,3) by (intro half_exact) simp_all
  have s: "sum_list hs + h = of_int (M + m) / 2" by (simp add: M(2) m(1) add_divide_distrib)
  have b: "0 \<le> M + m" "M + m \<le> 17 * int (length (hs @ [h]))" "M + m \<le> 17000"
    using M(3,4) m(2,3) snoc.prems(2) by simp_all
  have "to_double (sum_list hs + h) = Num (sum_list hs + h)"
    unfolding s using b(1,3) by (rule half_exact)
  then have "foldl num_add (Num 0) (map to_double (hs @ [h])) = Num (sum_list (hs @ [h]))"
    by (simp add: M(1) h)
  moreover have "sum_list (hs @ [h]) = of_int (M + m) / 2" using s by simp
  ultimately show ?case using b(1,2) by blast
qed

lemma expected_field_exact:
  assumes "0 \<le> M" "M \<le> 17000"
  shows "num_div (Math_round_num (num_mul (Num (of_int M / 2)) (Num 100))) (Num 100) =
         Num (of_int M / 2)"
proof -
  have e: "(of_int M / 2 * 100 :: rat) = of_int (M * 50)" by simp
  have "(of_int (M * 50) :: rat) = of_int (M * 50) * 2 powi 0" by simp
  moreover have "\<bar>M * 50\<bar> < 2 ^ 53" using assms by simp
  ultimately have "to_double (of_int (M * 50)) = Num (of_int (M * 50))"
    by (rule to_double_exact) simp_all
  then have "num_mul (Num (of_int M / 2)) (Num 100) = Num (of_int (M * 50))"
    by (simp only: num_mul.simps e)
  moreover have "\<lfloor>rat_of_int (M * 50) + 1 / 2\<rfloor> = M * 50" by linarith
  moreover have "rat_of_int (M * 50) / 100 = of_int M / 2" by simp
  ultimately show ?thesis
    using half_exact[OF assms] by simp
qed

subsection \<open>The error of the productivity computation\<close>

lemma productivity_error:
  fixes x y :: rat
  assumes pos: "0 < x" "0 < y"
    and range: "2 powi (- 1000) \<le> x / y" "x / y \<le> 2 powi 1000"
  shows "\<exists>d k p. num_mul (num_mul (num_div (Num x) (Num y)) (Num 100)) (Num 10) = Num d
           \<and> \<bar>d - x / y * 1000\<bar> \<le> x / y * 1000 * (5 * 2 powi (- 53))
           \<and> k = \<lfloor>d + 1 / 2\<rfloor> \<and> 0 \<le> k
           \<and> to_double (of_int k / 10) = Num p
           \<and> \<bar>of_int k - x / y * 1000\<bar> \<le> 1 / 2 + x / y * 1000 * (5 * 2 powi (- 53))
           \<and> \<bar>p - x / y * 100\<bar> \<le> 1 / 20 + (x / y * 100 + 1) * 2 powi (- 50)"
proof -
  define v where "v = x / y"
  define u :: rat where "u = 2 powi (- 53)"
  have u: "0 < u" "u \<le> 1 / 1000" "8 * u = 2 powi (- 50)"
    unfolding u_def by (rule ulp_facts)+
  have v: "0 < v" using pos by (simp add: v_def)
  have r1: "2 powi (- 1000) \<le> v" and r2: "v \<le> 2 powi 1000"
    using range by (simp_all add: v_def)
  have lo0: "2 powi (- 1022) \<le> \<bar>v\<bar>"
  proof -
    have "(2::rat) powi (- 1022) \<le> 2 powi (- 1000)" by (rule pow2_mono) simp
    with r1 v show ?thesis by simp
  qed
  have hi0: "\<bar>v\<bar> < 2 powi 1023"
  proof -
    have "(2::rat) powi 1000 \<le> 2 powi 1021" by (rule pow2_mono) simp
    with r2 pow2_ranges(2) pow2_pos[of 1021] v show ?thesis by simp
  qed
  from to_double_normal[OF lo0 hi0] obtain d1 where
    d1: "to_double v = Num d1" "\<bar>d1 - v\<bar> \<le> \<bar>v\<bar> * 2 powi (- 53)" by blast
  have n1: "\<bar>d1 - v\<bar> \<le> v * (1 * u)" using d1(2) v by (simp add: u_def)
  have lo1: "2 powi (- 1021) \<le> v * 100"
  proof -
    have "v \<le> v * 100" using v by simp
    with r1 pow2_ranges(3) show ?thesis by simp
  qed
  have hi2: "v * 100 * 10 \<le> 2 powi 1021"
  proof -
    have "v * 100 * 10 \<le> 1000 * 2 powi 1000" using r2 by simp
    with pow2_ranges(4) show ?thesis by (rule order_trans[rotated])
  qed
  have hi1: "v * 100 \<le> 2 powi 1021"
  proof -
    have "v * 100 \<le> v * 100 * 10" using v by simp
    with hi2 show ?thesis by simp
  qed
  have lo2: "2 powi (- 1021) \<le> v * 100 * 10"
  proof -
    have "v * 100 \<le> v * 100 * 10" using v by simp
    with lo1 show ?thesis by simp
  qed
  from scale_step[of d1 v 1 100, folded u_def, OF n1 v _ _ _ lo1 hi1] obtain d2 where
    d2: "to_double (d1 * 100) = Num d2" "\<bar>d2 - v * 100\<bar> \<le> v * 100 * ((1 + 2) * u)"
    by auto
  have n2: "\<bar>d2 - v * 100\<bar> \<le> v * 100 * (3 * u)" using d2(2) by simp
  have v100: "0 < v * 100" using v by simp
  from scale_step[of d2 "v * 100" 3 10, folded u_def, OF n2 v100 _ _ _ lo2 hi2] obtain d3 where
    d3: "to_double (d2 * 10) = Num d3" "\<bar>d3 - v * 100 * 10\<bar> \<le> v * 100 * 10 * ((3 + 2) * u)"
    by auto
  define V where "V = v * 1000"
  have V: "0 < V" using v by (simp add: V_def)
  have n3: "\<bar>d3 - V\<bar> \<le> V * (5 * u)" using d3(2) by (simp add: V_def)
  have V5u: "V * (5 * u) \<le> V * (1 / 200)"
    using u V by (intro mult_left_mono) simp_all
  have d3pos: "0 < d3" using n3 V5u V by linarith
  define k where "k = \<lfloor>d3 + 1 / 2\<rfloor>"
  have kf: "of_int k \<le> d3 + 1 / 2" "d3 + 1 / 2 < of_int k + 1"
    unfolding k_def using floor_correct[of "d3 + 1 / 2"] by simp_all
  have k0: "0 \<le> k" unfolding k_def using d3pos by simp
  have kd: "\<bar>of_int k - d3\<bar> \<le> 1 / 2" using kf by linarith
  have kV: "\<bar>of_int k - V\<bar> \<le> 1 / 2 + V * (5 * u)"
    using kd n3 by linarith
  define W where "W = v * 100"
  have W: "0 < W" "V = W * 10" using v by (simp_all add: W_def V_def)
  have kW: "\<bar>of_int k / 10 - W\<bar> \<le> 1 / 20 + W * (5 * u)"
  proof -
    have "V * (5 * u) = 10 * (W * (5 * u))" by (simp add: W(2))
    with kV W(2) show ?thesis by linarith
  qed
  have Wu: "0 < W * u" using W(1) u(1) by simp
  have comp: "num_mul (num_mul (num_div (Num x) (Num y)) (Num 100)) (Num 10) = Num d3"
    using pos d1(1) d2(1) d3(1) by (simp add: v_def[symmetric])
  have "\<exists>p. to_double (of_int k / 10) = Num p \<and> \<bar>p - W\<bar> \<le> 1 / 20 + (W + 1) * (8 * u)"
  proof (cases "k = 0")
    case True
    have a: "W \<le> 1 / 20 + W * (5 * u)" using kW W(1) by (simp add: True)
    have "W * (5 * u) \<le> (W + 1) * (8 * u)" using Wu u(1) by (simp add: algebra_simps)
    with a have "\<bar>0 - W\<bar> \<le> 1 / 20 + (W + 1) * (8 * u)" using W(1) by simp
    moreover have "to_double (of_int k / 10) = Num 0" by (simp add: True to_double_def)
    ultimately show ?thesis by blast
  next
    case False
    with k0 have k1: "1 \<le> k" by simp
    define c :: rat where "c = of_int k / 10"
    have c1: "1 / 10 \<le> c" using k1 by (simp add: c_def)
    have cW: "\<bar>c - W\<bar> \<le> 1 / 20 + W * (5 * u)" using kW by (simp add: c_def)
    have W5u: "W * (5 * u) \<le> W * (1 / 200)"
      using u W(1) by (intro mult_left_mono) simp_all
    have cup: "c \<le> 2 * W + 1 / 20" using cW W5u W(1) by linarith
    have lo: "2 powi (- 1022) \<le> \<bar>c\<bar>"
    proof -
      have "(2::rat) powi (- 1022) \<le> 2 powi (- 4)" by (rule pow2_mono) simp
      also have "\<dots> \<le> 1 / 10" by (simp add: power_int_minus)
      finally show ?thesis using c1 by simp
    qed
    have hi: "\<bar>c\<bar> < 2 powi 1023"
    proof -
      have "(1::rat) = 2 powi 0" by simp
      also have "\<dots> \<le> 2 powi 1021" by (rule pow2_mono) simp
      finally have one: "(1::rat) \<le> 2 powi 1021" .
      have "c \<le> 2 * 2 powi 1021 + 1 / 20" using cup hi1 by (simp add: W_def)
      also have "\<dots> < 2 powi 1023"
      proof -
        have b: "(2::rat) powi 1023 = 2 powi 1021 * 2 powi 2"
          by (simp only: pow2_add[symmetric]) simp
        show ?thesis unfolding b using one by simp
      qed
      finally show ?thesis using c1 by simp
    qed
    from to_double_normal[OF lo hi] obtain p where
      p: "to_double c = Num p" "\<bar>p - c\<bar> \<le> \<bar>c\<bar> * 2 powi (- 53)" by blast
    have "\<bar>c\<bar> * u \<le> (2 * W + 1 / 20) * u"
      using cup c1 u(1) by (intro mult_right_mono) simp_all
    with p(2) have pc: "\<bar>p - c\<bar> \<le> (2 * W + 1 / 20) * u" by (simp add: u_def)
    have "\<bar>p - W\<bar> \<le> 1 / 20 + W * (5 * u) + (2 * W + 1 / 20) * u"
      using pc cW by linarith
    also have "\<dots> \<le> 1 / 20 + (W + 1) * (8 * u)"
      using Wu u(1) by (simp add: algebra_simps)
    finally show ?thesis using p(1) unfolding c_def by blast
  qed
  then obtain p where p: "to_double (of_int k / 10) = Num p"
    "\<bar>p - W\<bar> \<le> 1 / 20 + (W + 1) * (8 * u)" by blast
  have e1: "\<bar>of_int k - x / y * 1000\<bar> \<le> 1 / 2 + x / y * 1000 * (5 * 2 powi (- 53))"
    using kV by (simp only: V_def v_def u_def)
  have e2: "\<bar>p - x / y * 100\<bar> \<le> 1 / 20 + (x / y * 100 + 1) * 2 powi (- 50)"
    using p(2) unfolding u(3) by (simp only: W_def v_def)
  have e0: "\<bar>d3 - x / y * 1000\<bar> \<le> x / y * 1000 * (5 * 2 powi (- 53))"
    using n3 by (simp only: V_def v_def u_def)
  from comp e0 k_def k0 p(1) e1 e2 show ?thesis by blast
qed

subsection \<open>Claims about the productivity of one pair of totals\<close>

lemma round_stable:
  assumes near: "\<bar>d - r\<bar> \<le> eps" and away: "eps < \<bar>frac r - 1 / 2\<bar>" and r: "0 \<le> (r::rat)"
  shows "\<lfloor>d + 1 / 2\<rfloor> = round_half_away_from_zero r"
proof -
  define n where "n = \<lfloor>r\<rfloor>"
  define f where "f = frac r"
  have f: "0 \<le> f" "f < 1" "r = of_int n + f"
    using frac_ge_0[of r] frac_lt_1[of r] by (simp_all add: f_def n_def) (simp add: frac_def)
  have eps: "0 \<le> eps" using near by linarith
  have away': "eps < \<bar>f - 1 / 2\<bar>" using away by (simp add: f_def)
  have "\<lfloor>d + 1 / 2\<rfloor> = \<lfloor>r + 1 / 2\<rfloor>"
  proof (cases "f < 1 / 2")
    case True
    have "\<lfloor>d + 1 / 2\<rfloor> = n" using near away' f eps True by (intro floor_unique) linarith+
    moreover have "\<lfloor>r + 1 / 2\<rfloor> = n" using f True by (intro floor_unique) linarith+
    ultimately show ?thesis by simp
  next
    case False
    have "\<lfloor>d + 1 / 2\<rfloor> = n + 1" using near away' f eps False by (intro floor_unique) (simp; linarith)+
    moreover have "\<lfloor>r + 1 / 2\<rfloor> = n + 1" using f False by (intro floor_unique) (simp; linarith)+
    ultimately show ?thesis by simp
  qed
  then show ?thesis using r by (simp add: round_half_away_from_zero_def)
qed

lemma calculateProductivity_negative:
  "num_less a (Num 0) \<Longrightarrow> calculateProductivity a e =
     Inl (CalculationError ''Invalid actualHours. Must be a non-negative number.''
            ''calculateProductivity'')"
  "\<not> num_less a (Num 0) \<Longrightarrow> num_less e (Num 0) \<Longrightarrow> calculateProductivity a e =
     Inl (CalculationError ''Invalid expectedHours. Must be a non-negative number.''
            ''calculateProductivity'')"
  "\<not> num_less a (Num 0) \<Longrightarrow> calculateProductivity a (Num 0) = Inr (Num 100)"
  by (simp_all add: calculateProductivity_def)

lemma to_double_zero: "to_double 0 = Num 0"
  by (simp add: to_double_def)

lemma floor_half: "\<lfloor>1 / 2 :: rat\<rfloor> = 0"
  by (rule floor_unique) simp_all

lemma calculateProductivity_zero: "0 < y \<Longrightarrow> calculateProductivity (Num 0) (Num y) = Inr (Num 0)"
  by (simp add: calculateProductivity_def to_double_zero floor_half)

lemma calculateProductivity_positive:
  "0 < x \<Longrightarrow> 0 < y \<Longrightarrow> calculateProductivity (Num x) (Num y) =
     Inr (num_div (Math_round_num (num_mul (num_mul (num_div (Num x) (Num y)) (Num 100))
            (Num 10))) (Num 10))"
  by (simp add: calculateProductivity_def)

lemma calculateProductivity_examples:
  "calculateProductivity (Num (17 / 2)) (Num (17 / 2)) = Inr (Num 100)"
  "calculateProductivity (Num 0) (Num 0) = Inr (Num 100)"
  "calculateProductivity (Num 4) (Num 0) = Inr (Num 100)"
  "calculateProductivity (Num (19 / 2)) (Num (17 / 2)) = Inr (to_double (1118 / 10))"
  "calculateProductivity (Num 7) (Num (17 / 2)) = Inr (to_double (824 / 10))"
  by code_simp+

lemma overtime_example:
  "(0::rat) < 19 / 2" "(0::rat) < 17 / 2"
  "(2::rat) powi (- 1000) \<le> 19 / 2 / (17 / 2)" "(19 / 2 / (17 / 2) :: rat) \<le> 2 powi 1000"
  "(19 / 2 / (17 / 2) * 1000 * (5 * 2 powi (- 53)) :: rat) < \<bar>frac (19 / 2 / (17 / 2) * 1000) - 1 / 2\<bar>"
  "round_1dp (19 / 2 / (17 / 2) * 100) = 1118 / 10"
proof -
  show "(0::rat) < 19 / 2" "(0::rat) < 17 / 2" by simp_all
  have "(2::rat) powi (- 1000) \<le> 2 powi 0" by (rule pow2_mono) simp
  then show "(2::rat) powi (- 1000) \<le> 19 / 2 / (17 / 2)" by simp
  have "(2::rat) powi 1 \<le> 2 powi 1000" by (rule pow2_mono) simp
  then show "(19 / 2 / (17 / 2) :: rat) \<le> 2 powi 1000" by simp
  show "(19 / 2 / (17 / 2) * 1000 * (5 * 2 powi (- 53)) :: rat) < \<bar>frac (19 / 2 / (17 / 2) * 1000) - 1 / 2\<bar>"
    by code_simp
  show "round_1dp (19 / 2 / (17 / 2) * 100) = 1118 / 10" by code_simp
qed

text \<open>
  C8, as the claim states it, fails: 23 hours of 80 are 28.75 percent, which is 28.8 when
  rounded to one decimal, and \<^verbatim>\<open>calculateProductivity\<close> returns 28.7, the double nearest to
  23 / 80 lying below 0.2875.
\<close>

theorem calculateProductivity_rounding_counterexample:
  "calculateProductivity (Num 23) (Num 80) = Inr (to_double (287 / 10))
   \<and> round_1dp (23 / 80 * 100) = 288 / 10
   \<and> to_double (288 / 10) \<noteq> to_double (287 / 10)"
  by code_simp

text \<open>
  C8, amended. A negative \<^verbatim>\<open>actualHours\<close>, and after it a negative \<^verbatim>\<open>expectedHours\<close>, is
  rejected with a \<^verbatim>\<open>CalculationError\<close>; with \<^verbatim>\<open>expectedHours\<close> zero the result is 100,
  whatever the hours worked; with no hours worked and hours expected it is 0. For positive
  totals \<open>x\<close> and \<open>y\<close> with a quotient between \<open>2\<^sup>-\<^sup>1\<^sup>0\<^sup>0\<^sup>0\<close> and \<open>2\<^sup>1\<^sup>0\<^sup>0\<^sup>0\<close> the result is the
  double nearest to \<open>k / 10\<close>, for an integer \<open>k\<close> that differs from \<open>1000 * x / y\<close> by at
  most a half and five relative rounding errors of \<open>2\<^sup>-\<^sup>5\<^sup>3\<close>; it lies within
  \<open>0.05 + (100 * x / y + 1) * 2\<^sup>-\<^sup>5\<^sup>0\<close> of the percentage, above 100 as well as below; and it
  is the double nearest to the percentage rounded to one decimal whenever \<open>1000 * x / y\<close>
  is farther than those rounding errors from the middle between two integers. The pairs
  (8.5, 8.5), (0, 0) and (9.5, 8.5) give 100, 100 and 111.8.
\<close>

theorem calculateProductivity_double:
  "(num_less a (Num 0) \<longrightarrow> calculateProductivity a e =
      Inl (CalculationError ''Invalid actualHours. Must be a non-negative number.''
             ''calculateProductivity''))
   \<and> (\<not> num_less a (Num 0) \<and> num_less e (Num 0) \<longrightarrow> calculateProductivity a e =
        Inl (CalculationError ''Invalid expectedHours. Must be a non-negative number.''
               ''calculateProductivity''))
   \<and> (\<not> num_less a (Num 0) \<longrightarrow> calculateProductivity a (Num 0) = Inr (Num 100))
   \<and> (0 < y \<longrightarrow> calculateProductivity (Num 0) (Num y) = Inr (Num 0))
   \<and> (0 < x \<and> 0 < y \<and> 2 powi (- 1000) \<le> x / y \<and> x / y \<le> 2 powi 1000 \<longrightarrow>
        (\<exists>k p. calculateProductivity (Num x) (Num y) = Inr (Num p)
           \<and> to_double (of_int k / 10) = Num p
           \<and> \<bar>of_int k - x / y * 1000\<bar> \<le> 1 / 2 + x / y * 1000 * (5 * 2 powi (- 53))
           \<and> \<bar>p - x / y * 100\<bar> \<le> 1 / 20 + (x / y * 100 + 1) * 2 powi (- 50)
           \<and> (x / y * 1000 * (5 * 2 powi (- 53)) < \<bar>frac (x / y * 1000) - 1 / 2\<bar> \<longrightarrow>
                Num p = to_double (round_1dp (x / y * 100)))))
   \<and> calculateProductivity (Num (17 / 2)) (Num (17 / 2)) = Inr (Num 100)
   \<and> calculateProductivity (Num 0) (Num 0) = Inr (Num 100)
   \<and> calculateProductivity (Num (19 / 2)) (Num (17 / 2)) = Inr (to_double (1118 / 10))"
proof -
  have main: "\<exists>k p. calculateProductivity (Num x) (Num y) = Inr (Num p)
           \<and> to_double (of_int k / 10) = Num p
           \<and> \<bar>of_int k - x / y * 1000\<bar> \<le> 1 / 2 + x / y * 1000 * (5 * 2 powi (- 53))
           \<and> \<bar>p - x / y * 100\<bar> \<le> 1 / 20 + (x / y * 100 + 1) * 2 powi (- 50)
           \<and> (x / y * 1000 * (5 * 2 powi (- 53)) < \<bar>frac (x / y * 1000) - 1 / 2\<bar> \<longrightarrow>
                Num p = to_double (round_1dp (x / y * 100)))"
    if pos: "0 < x" "0 < y" and range: "2 powi (- 1000) \<le> x / y" "x / y \<le> 2 powi 1000"
  proof -
    from productivity_error[OF pos range] obtain d k p where
      d: "num_mul (num_mul (num_div (Num x) (Num y)) (Num 100)) (Num 10) = Num d"
         "\<bar>d - x / y * 1000\<bar> \<le> x / y * 1000 * (5 * 2 powi (- 53))"
      and k: "k = \<lfloor>d + 1 / 2\<rfloor>"
      and p: "to_double (of_int k / 10) = Num p"
         "\<bar>of_int k - x / y * 1000\<bar> \<le> 1 / 2 + x / y * 1000 * (5 * 2 powi (- 53))"
         "\<bar>p - x / y * 100\<bar> \<le> 1 / 20 + (x / y * 100 + 1) * 2 powi (- 50)"
      by blast
    have res: "calculateProductivity (Num x) (Num y) = Inr (Num p)"
      unfolding calculateProductivity_positive[OF pos] d(1) using p(1) by (simp add: k)
    have r0: "0 \<le> x / y * 1000" using pos by simp
    have "Num p = to_double (round_1dp (x / y * 100))"
      if "x / y * 1000 * (5 * 2 powi (- 53)) < \<bar>frac (x / y * 1000) - 1 / 2\<bar>"
    proof -
      from round_stable[OF d(2) that r0] have "round_half_away_from_zero (x / y * 1000) = k"
        by (simp only: k)
      moreover have "x / y * 100 * 10 = x / y * 1000" by simp
      ultimately have "round_1dp (x / y * 100) = of_int k / 10" by (simp only: round_1dp_def)
      with p(1) show ?thesis by (simp only:)
    qed
    with res p show ?thesis by blast
  qed
  show ?thesis
    using calculateProductivity_negative(1)[of a e] calculateProductivity_negative(2)[of a e]
      calculateProductivity_negative(3)[of a] calculateProductivity_zero[of y] main
      calculateProductivity_examples(1,2,4)
    by blast
qed

theorem calculateProductivity_double_witness:
  "num_less (Num (- 1)) (Num 0)
   \<and> calculateProductivity (Num (- 1)) (Num 8) =
       Inl (CalculationError ''Invalid actualHours. Must be a non-negative number.''
              ''calculateProductivity'')
   \<and> \<not> num_less (Num 1) (Num 0)
   \<and> calculateProductivity (Num 1) (Num (- 1)) =
       Inl (CalculationError ''Invalid expectedHours. Must be a non-negative number.''
              ''calculateProductivity'')
   \<and> calculateProductivity (Num 4) (Num 0) = Inr (Num 100)
   \<and> calculateProductivity (Num 0) (Num 4) = Inr (Num 0)
   \<and> (0::rat) < 19 / 2 \<and> (0::rat) < 17 / 2
   \<and> (2::rat) powi (- 1000) \<le> 19 / 2 / (17 / 2) \<and> (19 / 2 / (17 / 2) :: rat) \<le> 2 powi 1000
   \<and> (19 / 2 / (17 / 2) * 1000 * (5 * 2 powi (- 53)) :: rat)
        < \<bar>frac (19 / 2 / (17 / 2) * 1000) - 1 / 2\<bar>
   \<and> calculateProductivity (Num (19 / 2)) (Num (17 / 2)) = Inr (to_double (1118 / 10))"
proof -
  have n1: "num_less (Num (- 1)) (Num 0)" and n2: "\<not> num_less (Num 1) (Num 0)"
    and n3: "\<not> num_less (Num 4) (Num 0)" and n4: "(0::rat) < 4"
    by simp_all
  from calculateProductivity_double[where a = "Num (- 1)" and e = "Num 8"] n1
  have a: "calculateProductivity (Num (- 1)) (Num 8) =
       Inl (CalculationError ''Invalid actualHours. Must be a non-negative number.''
              ''calculateProductivity'')"
    by blast
  from calculateProductivity_double[where a = "Num 1" and e = "Num (- 1)"] n1 n2
  have b: "calculateProductivity (Num 1) (Num (- 1)) =
       Inl (CalculationError ''Invalid expectedHours. Must be a non-negative number.''
              ''calculateProductivity'')"
    by blast
  from calculateProductivity_double[where a = "Num 4" and y = 4] n3 n4
  have c: "calculateProductivity (Num 4) (Num 0) = Inr (Num 100)"
    "calculateProductivity (Num 0) (Num 4) = Inr (Num 0)"
    by blast+
  from calculateProductivity_double[where x = "19 / 2" and y = "17 / 2"] overtime_example(1-5)
  obtain p where "calculateProductivity (Num (19 / 2)) (Num (17 / 2)) = Inr (Num p)"
    "Num p = to_double (round_1dp (19 / 2 / (17 / 2) * 100))"
    by blast
  then have d: "calculateProductivity (Num (19 / 2)) (Num (17 / 2)) = Inr (to_double (1118 / 10))"
    by (simp only: overtime_example(6))
  from n1 n2 a b c d overtime_example(1-5) show ?thesis by blast
qed

subsection \<open>Claims about the aggregate productivity\<close>

lemma getExpectedHours_cases:
  "Date_getTime d = None \<Longrightarrow>
     getExpectedHours d = Inl (InvalidDateError ''Invalid date provided to getExpectedHours'')"
  "Date_getTime d \<noteq> None \<Longrightarrow> \<exists>h. getExpectedHours d = Inr h \<and> h \<in> {0, 4, 17 / 2}"
  by (cases d; simp add: Date_getTime_def getExpectedHours_None getExpectedHours_Some)+

lemma sumHours_foldl:
  "list_all2 (\<lambda>r h. getExpectedHours (date r) = Inr h) records hs \<Longrightarrow>
   sumHours records a e =
     Inr (foldl num_add a (map (\<lambda>r. to_double (workedHours r)) records),
          foldl num_add e (map to_double hs))"
  by (induction arbitrary: a e rule: list_all2_induct) simp_all

lemma expected_list:
  "\<forall>r \<in> set records. Date_getTime (date r) \<noteq> None \<Longrightarrow>
   \<exists>hs. list_all2 (\<lambda>r h. getExpectedHours (date r) = Inr h) records hs
        \<and> set hs \<subseteq> {0, 4, 17 / 2}"
proof (induction records)
  case Nil
  show ?case by simp
next
  case (Cons r records)
  then obtain hs where hs: "list_all2 (\<lambda>r h. getExpectedHours (date r) = Inr h) records hs"
    "set hs \<subseteq> {0, 4, 17 / 2}" by auto
  from Cons.prems getExpectedHours_cases(2)[of "date r"] obtain h where
    h: "getExpectedHours (date r) = Inr h" "h \<in> {0, 4, 17 / 2}" by auto
  have "list_all2 (\<lambda>r h. getExpectedHours (date r) = Inr h) (r # records) (h # hs)"
    using hs(1) h(1) by simp
  moreover have "set (h # hs) \<subseteq> {0, 4, 17 / 2}" using hs(2) h(2) by simp
  ultimately show ?case by blast
qed

lemma sumHours_invalid:
  "\<exists>r \<in> set records. Date_getTime (date r) = None \<Longrightarrow>
   sumHours records a e = Inl (InvalidDateError ''Invalid date provided to getExpectedHours'')"
proof (induction records arbitrary: a e)
  case Nil
  then show ?case by simp
next
  case (Cons r records)
  show ?case
  proof (cases "Date_getTime (date r) = None")
    case True
    then show ?thesis by (simp add: getExpectedHours_cases(1))
  next
    case False
    with Cons.prems have "\<exists>r \<in> set records. Date_getTime (date r) = None" by simp
    from Cons.IH[OF this] getExpectedHours_cases(2)[OF False] show ?thesis by auto
  qed
qed

lemma calculateAggregateProductivity_invalid:
  assumes "\<exists>r \<in> set records. Date_getTime (date r) = None"
  shows "calculateAggregateProductivity records =
         Inl (InvalidDateError ''Invalid date provided to getExpectedHours'')"
proof -
  from assms have "records \<noteq> []" by auto
  then show ?thesis
    by (simp add: calculateAggregateProductivity_def sumHours_invalid[OF assms])
qed

lemma calculateAggregateProductivity_valid:
  assumes "records \<noteq> []"
    and "list_all2 (\<lambda>r h. getExpectedHours (date r) = Inr h) records hs"
  shows "calculateAggregateProductivity records =
     (case calculateProductivity
             (foldl num_add (Num 0) (map (\<lambda>r. to_double (workedHours r)) records))
             (foldl num_add (Num 0) (map to_double hs)) of
        Inl err \<Rightarrow> Inl err
      | Inr p \<Rightarrow>
          Inr \<lparr>actualHours =
                 num_div (Math_round_num (num_mul
                   (foldl num_add (Num 0) (map (\<lambda>r. to_double (workedHours r)) records))
                   (Num 100))) (Num 100),
               expectedHours =
                 num_div (Math_round_num (num_mul
                   (foldl num_add (Num 0) (map to_double hs)) (Num 100))) (Num 100),
               productivityPercentage = p\<rparr>)"
  using assms(1) by (simp add: calculateAggregateProductivity_def sumHours_foldl[OF assms(2)])

lemma calculateProductivity_nonneg:
  "0 \<le> t \<Longrightarrow> 0 \<le> s \<Longrightarrow> \<exists>p. calculateProductivity (Num t) (Num s) = Inr p"
  by (simp add: calculateProductivity_def Let_def)

lemma calculateAggregateProductivity_bounded:
  assumes ne: "records \<noteq> []" and len: "length records \<le> 1000"
    and ok: "\<forall>r \<in> set records. Date_getTime (date r) \<noteq> None
               \<and> 0 \<le> workedHours r \<and> workedHours r \<le> 24"
  shows "\<exists>hs t k p.
           list_all2 (\<lambda>r h. getExpectedHours (date r) = Inr h) records hs
         \<and> foldl num_add (Num 0) (map (\<lambda>r. to_double (workedHours r)) records) = Num t
         \<and> \<bar>t - sum_list (map workedHours records)\<bar> \<le> 1 / 10 ^ 8
         \<and> \<bar>of_int k - sum_list (map workedHours records) * 100\<bar> \<le> 1 / 2 + 1 / 100000
         \<and> ((\<forall>r \<in> set records. workedHours r * 100 \<in> \<int>) \<longrightarrow>
              of_int k / 100 = sum_list (map workedHours records))
         \<and> calculateProductivity (Num t) (Num (sum_list hs)) = Inr p
         \<and> calculateAggregateProductivity records =
             Inr \<lparr>actualHours = to_double (of_int k / 100),
                  expectedHours = Num (sum_list hs),
                  productivityPercentage = p\<rparr>"
proof -
  define ws where "ws = map workedHours records"
  define S where "S = sum_list ws"
  from ok expected_list[of records] obtain hs where
    hs: "list_all2 (\<lambda>r h. getExpectedHours (date r) = Inr h) records hs"
        "set hs \<subseteq> {0, 4, 17 / 2}" by blast
  have lhs: "length hs \<le> 1000" using list_all2_lengthD[OF hs(1)] len by simp
  from expected_sum_exact[OF hs(2) lhs] obtain M where
    te: "foldl num_add (Num 0) (map to_double hs) = Num (sum_list hs)"
    and M: "sum_list hs = of_int M / 2" "0 \<le> M" "M \<le> 17 * int (length hs)" by blast
  have M': "M \<le> 17000" using M(3) lhs by simp
  have wsb: "\<forall>w \<in> set ws. 0 \<le> w \<and> w \<le> 24" using ok by (simp add: ws_def)
  have lws: "length ws \<le> 1000" using len by (simp add: ws_def)
  have mapws: "map (\<lambda>r. to_double (workedHours r)) records = map to_double ws"
    by (simp add: ws_def)
  from sum_doubles_error[OF wsb lws] obtain t where
    t: "foldl num_add (Num 0) (map to_double ws) = Num t" "0 \<le> t"
       "\<bar>t - S\<bar> \<le> of_nat (length ws) * (24027 * 2 powi (- 53))"
    unfolding S_def by blast
  have "rat_of_nat (length ws) * (24027 * 2 powi (- 53)) \<le> 1000 * (24027 * 2 powi (- 53))"
    using lws by (intro mult_right_mono) simp_all
  with t(3) have near: "\<bar>t - S\<bar> \<le> 1000 * (24027 * 2 powi (- 53))" by (rule order_trans)
  have "(1000 * (24027 * 2 powi (- 53)) :: rat) \<le> 1 / 10 ^ 8"
    by (simp add: power_int_minus field_simps)
  with near have near8: "\<bar>t - S\<bar> \<le> 1 / 10 ^ 8" by (rule order_trans)
  have Sb: "0 \<le> S" "S \<le> 24000"
  proof -
    from sum_list_hours[OF wsb] have "0 \<le> S" "S \<le> 24 * of_nat (length ws)"
      by (simp_all add: S_def)
    moreover have "(24::rat) * of_nat (length ws) \<le> 24 * 1000" using lws by simp
    ultimately show "0 \<le> S" "S \<le> 24000" by simp_all
  qed
  from round_hundredths[OF t(2) near Sb] obtain k where
    k: "num_div (Math_round_num (num_mul (Num t) (Num 100))) (Num 100) =
          to_double (of_int k / 100)"
       "\<bar>of_int k - S * 100\<bar> \<le> 1 / 2 + 1 / 100000" by blast
  have hund: "of_int k / 100 = S" if "\<forall>r \<in> set records. workedHours r * 100 \<in> \<int>"
  proof -
    from that have "\<forall>w \<in> set ws. w * 100 \<in> \<int>" by (simp add: ws_def)
    then have "S * 100 \<in> \<int>" unfolding S_def by (rule hundredths_sum)
    moreover have "\<bar>of_int k - S * 100\<bar> < 1" using k(2) by linarith
    ultimately have "of_int k = S * 100" by (rule int_near)
    then show ?thesis by simp
  qed
  have "0 \<le> sum_list hs" using M(1,2) by simp
  from calculateProductivity_nonneg[OF t(2) this] obtain p where
    p: "calculateProductivity (Num t) (Num (sum_list hs)) = Inr p" by blast
  have ef: "num_div (Math_round_num (num_mul (Num (sum_list hs)) (Num 100))) (Num 100) =
        Num (sum_list hs)"
    unfolding M(1) using M(2) M' by (rule expected_field_exact)
  have res: "calculateAggregateProductivity records =
             Inr \<lparr>actualHours = to_double (of_int k / 100),
                  expectedHours = Num (sum_list hs),
                  productivityPercentage = p\<rparr>"
    unfolding calculateAggregateProductivity_valid[OF ne hs(1)] mapws t(1) te p k(1) ef
    by (simp only: sum.case)
  from hs(1) t(1) near8 k(2) hund p res show ?thesis
    unfolding mapws S_def ws_def[symmetric] by blast
qed

lemma calculateAggregateProductivity_negative:
  assumes ne: "records \<noteq> []" and ok: "\<forall>r \<in> set records. Date_getTime (date r) \<noteq> None"
    and neg: "num_less (foldl num_add (Num 0) (map (\<lambda>r. to_double (workedHours r)) records))
                (Num 0)"
  shows "calculateAggregateProductivity records =
     Inl (CalculationError ''Invalid actualHours. Must be a non-negative number.''
            ''calculateProductivity'')"
proof -
  from expected_list[OF ok] obtain hs where
    hs: "list_all2 (\<lambda>r h. getExpectedHours (date r) = Inr h) records hs" by blast
  show ?thesis
    unfolding calculateAggregateProductivity_valid[OF ne hs]
      calculateProductivity_negative(1)[OF neg]
    by (simp only: sum.case)
qed

lemma aggregate_examples:
  "to_double 7 = Num 7" "to_double (- 1) = Num (- 1)"
  "Date_getTime (new_Date 2024 0 1) \<noteq> None"
  by code_simp+

text \<open>
  C4, as the claim states it, fails: the percentage is computed from the totals before
  they are rounded. With 0.02 hours on a Saturday and 0.55 hours on a Sunday the total is
  the double 0.5700000000000001 and the percentage 14.3, while the rounded totals 0.57 and
  4 give 14.2; with 0.0043 hours on a Monday the percentage is 0.1, while the rounded
  totals 0 and 8.5 give 0.
\<close>

theorem calculateAggregateProductivity_rounded_totals_counterexample:
  "calculateAggregateProductivity
     [\<lparr>employeeId = ''e1'', date = new_Date 2024 0 6, inTime = Some ''09:00'',
       outTime = Some ''09:01'', workedHours = 2 / 100, status = PRESENT\<rparr>,
      \<lparr>employeeId = ''e1'', date = new_Date 2024 0 7, inTime = Some ''09:00'',
       outTime = Some ''09:33'', workedHours = 55 / 100, status = PRESENT\<rparr>] =
     Inr \<lparr>actualHours = to_double (57 / 100), expectedHours = Num 4,
          productivityPercentage = to_double (143 / 10)\<rparr>
   \<and> calculateProductivity (to_double (57 / 100)) (Num 4) = Inr (to_double (142 / 10))
   \<and> to_double (143 / 10) \<noteq> to_double (142 / 10)
   \<and> calculateAggregateProductivity
       [\<lparr>employeeId = ''e1'', date = new_Date 2024 0 1, inTime = None, outTime = None,
         workedHours = 43 / 10000, status = PRESENT\<rparr>] =
       Inr \<lparr>actualHours = Num 0, expectedHours = Num (17 / 2),
            productivityPercentage = to_double (1 / 10)\<rparr>
   \<and> calculateProductivity (Num 0) (Num (17 / 2)) = Inr (Num 0)
   \<and> to_double (1 / 10) \<noteq> Num 0"
  by code_simp

text \<open>
  C4, amended. \<^verbatim>\<open>calculateAggregateProductivity\<close> rejects an empty list with a
  \<^verbatim>\<open>CalculationError\<close>, a list with an Invalid Date with an \<^verbatim>\<open>InvalidDateError\<close>, and a
  list of valid dates whose total of worked hours is negative with the
  \<^verbatim>\<open>CalculationError\<close> of \<^verbatim>\<open>calculateProductivity\<close>. For at most 1000 records with valid dates
  and worked hours between 0 and 24: the total of the worked hours, added up as doubles,
  differs from their sum by at most \<open>10\<^sup>-\<^sup>8\<close>; \<^verbatim>\<open>actualHours\<close> is the double nearest to
  \<open>k / 100\<close> for an integer \<open>k\<close> within \<open>0.5 + 10\<^sup>-\<^sup>5\<close> of a hundred times the sum, and the
  double nearest to the sum itself when every record has a whole number of hundredths;
  \<^verbatim>\<open>expectedHours\<close> is the sum of the expected hours of the dates, which
  \<^verbatim>\<open>getExpectedHours\<close> computes from each date; and \<^verbatim>\<open>productivityPercentage\<close> is
  \<^verbatim>\<open>calculateProductivity\<close> of the total of the worked hours before it is rounded and of
  the expected hours.
\<close>

theorem calculateAggregateProductivity_totals:
  "calculateAggregateProductivity [] =
     Inl (CalculationError ''Records array must be non-empty'' ''calculateAggregateProductivity'')
   \<and> ((\<exists>r \<in> set records. Date_getTime (date r) = None) \<longrightarrow>
        calculateAggregateProductivity records =
          Inl (InvalidDateError ''Invalid date provided to getExpectedHours''))
   \<and> (records \<noteq> [] \<and> (\<forall>r \<in> set records. Date_getTime (date r) \<noteq> None)
        \<and> num_less (foldl num_add (Num 0) (map (\<lambda>r. to_double (workedHours r)) records))
             (Num 0) \<longrightarrow>
        calculateAggregateProductivity records =
          Inl (CalculationError ''Invalid actualHours. Must be a non-negative number.''
                 ''calculateProductivity''))
   \<and> (records \<noteq> [] \<and> length records \<le> 1000
        \<and> (\<forall>r \<in> set records. Date_getTime (date r) \<noteq> None
               \<and> 0 \<le> workedHours r \<and> workedHours r \<le> 24) \<longrightarrow>
        (\<exists>hs t k p.
           list_all2 (\<lambda>r h. getExpectedHours (date r) = Inr h) records hs
         \<and> foldl num_add (Num 0) (map (\<lambda>r. to_double (workedHours r)) records) = Num t
         \<and> \<bar>t - sum_list (map workedHours records)\<bar> \<le> 1 / 10 ^ 8
         \<and> \<bar>of_int k - sum_list (map workedHours records) * 100\<bar> \<le> 1 / 2 + 1 / 100000
         \<and> ((\<forall>r \<in> set records. workedHours r * 100 \<in> \<int>) \<longrightarrow>
              of_int k / 100 = sum_list (map workedHours records))
         \<and> calculateProductivity (Num t) (Num (sum_list hs)) = Inr p
         \<and> calculateAggregateProductivity records =
             Inr \<lparr>actualHours = to_double (of_int k / 100),
                  expectedHours = Num (sum_list hs),
                  productivityPercentage = p\<rparr>))"
proof -
  have "calculateAggregateProductivity [] =
     Inl (CalculationError ''Records array must be non-empty'' ''calculateAggregateProductivity'')"
    by (simp add: calculateAggregateProductivity_def)
  then show ?thesis
    using calculateAggregateProductivity_invalid[of records]
      calculateAggregateProductivity_negative[of records]
      calculateAggregateProductivity_bounded[of records]
    by (intro conjI impI) (assumption | blast)+
qed

theorem calculateAggregateProductivity_totals_witness:
  "Date_getTime (new_Date 2024 0 1) \<noteq> None \<and> (0::rat) \<le> 7 \<and> (7::rat) \<le> 24
   \<and> (7 * 100 :: rat) \<in> \<int>
   \<and> calculateAggregateProductivity
       [\<lparr>employeeId = ''e1'', date = new_Date 2024 0 1, inTime = Some ''09:00'',
         outTime = Some ''16:00'', workedHours = 7, status = PRESENT\<rparr>] =
       Inr \<lparr>actualHours = Num 7, expectedHours = Num (17 / 2),
            productivityPercentage = to_double (824 / 10)\<rparr>
   \<and> Date_getTime None = None
   \<and> calculateAggregateProductivity
       [\<lparr>employeeId = ''e1'', date = None, inTime = None, outTime = None,
         workedHours = 0, status = ABSENT\<rparr>] =
       Inl (InvalidDateError ''Invalid date provided to getExpectedHours'')
   \<and> num_less (num_add (Num 0) (to_double (- 1))) (Num 0)
   \<and> calculateAggregateProductivity
       [\<lparr>employeeId = ''e1'', date = new_Date 2024 0 1, inTime = None, outTime = None,
         workedHours = - 1, status = PRESENT\<rparr>] =
       Inl (CalculationError ''Invalid actualHours. Must be a non-negative number.''
              ''calculateProductivity'')"
proof -
  define r1 where "r1 = \<lparr>employeeId = ''e1'', date = new_Date 2024 0 1, inTime = Some ''09:00'',
         outTime = Some ''16:00'', workedHours = 7, status = PRESENT\<rparr>"
  define r2 where "r2 = \<lparr>employeeId = ''e1'', date = None, inTime = None, outTime = None,
         workedHours = 0, status = ABSENT\<rparr>"
  define r3 where "r3 = \<lparr>employeeId = ''e1'', date = new_Date 2024 0 1, inTime = None,
         outTime = None, workedHours = - 1, status = PRESENT\<rparr>"
  note valid = aggregate_examples(3)
  have int7: "(7 * 100 :: rat) \<in> \<int>" by simp
  have h1: "[r1] \<noteq> []" "length [r1] \<le> 1000"
    "\<forall>r \<in> set [r1]. Date_getTime (date r) \<noteq> None \<and> 0 \<le> workedHours r \<and> workedHours r \<le> 24"
    "\<forall>r \<in> set [r1]. workedHours r * 100 \<in> \<int>"
    using valid by (simp_all add: r1_def)
  from calculateAggregateProductivity_totals[of "[r1]"] h1 obtain hs t k p where
    f: "list_all2 (\<lambda>r h. getExpectedHours (date r) = Inr h) [r1] hs"
       "foldl num_add (Num 0) (map (\<lambda>r. to_double (workedHours r)) [r1]) = Num t"
       "of_int k / 100 = sum_list (map workedHours [r1])"
       "calculateProductivity (Num t) (Num (sum_list hs)) = Inr p"
       "calculateAggregateProductivity [r1] =
             Inr \<lparr>actualHours = to_double (of_int k / 100),
                  expectedHours = Num (sum_list hs),
                  productivityPercentage = p\<rparr>"
    by blast
  from f(1) have hs: "hs = [17 / 2]"
    by (auto simp: list_all2_Cons1 r1_def expected_examples)
  from f(2) have t: "t = 7" by (simp add: r1_def aggregate_examples to_double_zero)
  from f(3) have k: "rat_of_int k / 100 = 7" by (simp add: r1_def)
  from f(4) have p: "p = to_double (824 / 10)"
    by (simp add: hs t calculateProductivity_examples)
  have a: "calculateAggregateProductivity [r1] =
       Inr \<lparr>actualHours = Num 7, expectedHours = Num (17 / 2),
            productivityPercentage = to_double (824 / 10)\<rparr>"
    unfolding f(5) k p hs by (simp add: aggregate_examples)
  have "\<exists>r \<in> set [r2]. Date_getTime (date r) = None"
    by (simp add: r2_def Date_getTime_def)
  with calculateAggregateProductivity_totals[of "[r2]"]
  have b: "calculateAggregateProductivity [r2] =
       Inl (InvalidDateError ''Invalid date provided to getExpectedHours'')"
    by blast
  have neg: "num_less (num_add (Num 0) (to_double (- 1))) (Num 0)"
    by (simp add: aggregate_examples)
  have h3: "[r3] \<noteq> []" "\<forall>r \<in> set [r3]. Date_getTime (date r) \<noteq> None"
    "num_less (foldl num_add (Num 0) (map (\<lambda>r. to_double (workedHours r)) [r3])) (Num 0)"
    using valid neg by (simp_all add: r3_def)
  with calculateAggregateProductivity_totals[of "[r3]"]
  have c: "calculateAggregateProductivity [r3] =
       Inl (CalculationError ''Invalid actualHours. Must be a non-negative number.''
              ''calculateProductivity'')"
    by blast
  have "Date_getTime None = None" by (simp add: Date_getTime_def)
  with valid int7 a b c neg show ?thesis
    unfolding r1_def r2_def r3_def by simp
qed

end
